theory Spec2Isabelle
  imports Main "HOL-Library.AList"
begin

section \<open>Configuration\<close>

text \<open>
  The constants of \<^verbatim>\<open>CONFIG\<close> in \<^verbatim>\<open>parallel_provider_completion.js\<close> that the
  tracker and the driver read. Offsets, game totals and retry counts are JavaScript
  numbers holding integers; they are modelled as \<open>int\<close>. A number of offsets
  (\<^verbatim>\<open>maxOffsets\<close>, \<^verbatim>\<open>Set.size\<close>, \<^verbatim>\<open>Array.length\<close>) is a \<open>nat\<close>.
\<close>

definition GAMES_PER_REQUEST :: int where
  "GAMES_PER_REQUEST = 39"

definition MAX_CONCURRENT_REQUESTS :: nat where
  "MAX_CONCURRENT_REQUESTS = 3"

definition MAX_RETRIES :: int where
  "MAX_RETRIES = 20"

definition SKIP_MISSING_GAMES :: bool where
  "SKIP_MISSING_GAMES = True"

definition MAX_EMPTY_ATTEMPTS :: nat where
  "MAX_EMPTY_ATTEMPTS = 10"

section \<open>JavaScript containers\<close>

text \<open>
  A JavaScript \<^verbatim>\<open>Set\<close> iterates in insertion order, so it is a list without
  duplicates: \<^verbatim>\<open>add\<close> appends a new element and leaves a present one where it is,
  \<^verbatim>\<open>delete\<close> removes it. A \<^verbatim>\<open>Map\<close> is an association list with the same
  order: \<^verbatim>\<open>set\<close> overwrites the value of a present key in place and appends a new
  key, \<^verbatim>\<open>get\<close> is \<open>map_of\<close> (\<open>None\<close> for \<^verbatim>\<open>undefined\<close>).
\<close>

definition Set_add :: "'a \<Rightarrow> 'a list \<Rightarrow> 'a list" where
  "Set_add x xs = (if x \<in> set xs then xs else xs @ [x])"

definition Set_delete :: "'a \<Rightarrow> 'a list \<Rightarrow> 'a list" where
  "Set_delete x xs = removeAll x xs"

definition Map_set :: "'k \<Rightarrow> 'v \<Rightarrow> ('k \<times> 'v) list \<Rightarrow> ('k \<times> 'v) list" where
  "Map_set k v m = AList.update k v m"

definition Map_get :: "('k \<times> 'v) list \<Rightarrow> 'k \<Rightarrow> 'v option" where
  "Map_get m k = map_of m k"

section \<open>The offset tracker\<close>

record OffsetTracker =
  completed :: "int list"
  failed :: "int list"
  inProgress :: "int list"
  retryCount :: "(int \<times> int) list"

definition OffsetTracker_new :: OffsetTracker where
  "OffsetTracker_new = \<lparr>completed = [], failed = [], inProgress = [], retryCount = []\<rparr>"

definition markInProgress :: "OffsetTracker \<Rightarrow> int \<Rightarrow> OffsetTracker" where
  "markInProgress t off = t\<lparr>inProgress := Set_add off (inProgress t)\<rparr>"

text \<open>The game count of \<^verbatim>\<open>markCompleted\<close> is only logged.\<close>

definition markCompleted :: "OffsetTracker \<Rightarrow> int \<Rightarrow> nat \<Rightarrow> OffsetTracker" where
  "markCompleted t off gameCount =
     t\<lparr>inProgress := Set_delete off (inProgress t),
       completed := Set_add off (completed t)\<rparr>"

text \<open>\<^verbatim>\<open>this.retryCount.get(offset) || 0\<close>: a missing entry and a zero both give 0.\<close>

definition retries_of :: "OffsetTracker \<Rightarrow> int \<Rightarrow> int" where
  "retries_of t off = (case Map_get (retryCount t) off of None \<Rightarrow> 0 | Some c \<Rightarrow> c)"

text \<open>\<^verbatim>\<open>markFailed\<close> returns whether the offset can be retried, and the new tracker.\<close>

definition markFailed :: "OffsetTracker \<Rightarrow> int \<Rightarrow> bool \<times> OffsetTracker" where
  "markFailed t off =
     (let t1 = t\<lparr>inProgress := Set_delete off (inProgress t)\<rparr>;
          retries = retries_of t1 off + 1;
          t2 = t1\<lparr>retryCount := Map_set off retries (retryCount t1)\<rparr>
      in if retries \<ge> MAX_RETRIES
         then (False, t2\<lparr>failed := Set_add off (failed t2)\<rparr>)
         else (True, t2))"

definition isCompleted :: "OffsetTracker \<Rightarrow> int \<Rightarrow> bool" where
  "isCompleted t off = (off \<in> set (completed t))"

definition isFailed :: "OffsetTracker \<Rightarrow> int \<Rightarrow> bool" where
  "isFailed t off = (off \<in> set (failed t))"

definition isInProgress :: "OffsetTracker \<Rightarrow> int \<Rightarrow> bool" where
  "isInProgress t off = (off \<in> set (inProgress t))"

definition canFetch :: "OffsetTracker \<Rightarrow> int \<Rightarrow> bool" where
  "canFetch t off = (\<not> isCompleted t off \<and> \<not> isFailed t off \<and> \<not> isInProgress t off)"

text \<open>
  \<^verbatim>\<open>getNextSequentialOffset\<close>: the loop \<^verbatim>\<open>while (this.isCompleted(offset)) offset += 39\<close>
  from 0. It ends because every round passes one more element of the finite
  \<^verbatim>\<open>completed\<close> set.
\<close>

function firstUncompleted :: "OffsetTracker \<Rightarrow> int \<Rightarrow> int" where
  "firstUncompleted t off =
     (if isCompleted t off then firstUncompleted t (off + GAMES_PER_REQUEST) else off)"
  by pat_completeness auto
termination
proof (relation "measure (\<lambda>(t, off). length (filter (\<lambda>c. off \<le> c) (completed t)))")
  show "wf (measure (\<lambda>(t, off). length (filter (\<lambda>c. off \<le> c) (completed t))))"
    by simp
next
  fix t :: OffsetTracker and off :: int
  assume c: "isCompleted t off"
  let ?P = "\<lambda>c. off \<le> c" and ?Q = "\<lambda>c. off + GAMES_PER_REQUEST \<le> c"
  have sub: "filter ?Q (completed t) = filter ?Q (filter ?P (completed t))"
    by (simp add: GAMES_PER_REQUEST_def) (rule filter_cong, auto)
  have mem: "off \<in> set (filter ?P (completed t))"
    using c by (simp add: isCompleted_def)
  have "\<not> ?Q off"
    by (simp add: GAMES_PER_REQUEST_def)
  then have "length (filter ?Q (filter ?P (completed t))) < length (filter ?P (completed t))"
    using mem by (rule_tac length_filter_less) auto
  then show "((t, off + GAMES_PER_REQUEST), (t, off))
      \<in> measure (\<lambda>(t, off). length (filter (\<lambda>c. off \<le> c) (completed t)))"
    using sub by simp
qed

declare firstUncompleted.simps [simp del]

definition getNextSequentialOffset :: "OffsetTracker \<Rightarrow> int" where
  "getNextSequentialOffset t = firstUncompleted t 0"

text \<open>
  The first loop of \<^verbatim>\<open>getNextOffsets\<close>,
  \<^verbatim>\<open>for (const failedOffset of this.failed)\<close>, over the elements the set has when
  the loop starts: the body deletes only the element it is visiting, which does not
  disturb the iteration over the others. The pair is the array \<^verbatim>\<open>offsets\<close> and
  the tracker.
\<close>

fun retryLoop :: "nat \<Rightarrow> int list \<Rightarrow> int list \<times> OffsetTracker \<Rightarrow> int list \<times> OffsetTracker" where
  "retryLoop maxOffsets [] (offsets, t) = (offsets, t)"
| "retryLoop maxOffsets (failedOffset # rest) (offsets, t) =
     (if length offsets \<ge> maxOffsets then (offsets, t)
      else if retries_of t failedOffset < MAX_RETRIES \<and> canFetch t failedOffset
      then retryLoop maxOffsets rest
             (offsets @ [failedOffset], t\<lparr>failed := Set_delete failedOffset (failed t)\<rparr>)
      else retryLoop maxOffsets rest (offsets, t))"

text \<open>
  The second loop,
  \<^verbatim>\<open>while (offsets.length < maxOffsets && offset < totalGames)\<close>.
\<close>

function sequentialLoop :: "OffsetTracker \<Rightarrow> int \<Rightarrow> nat \<Rightarrow> int list \<Rightarrow> int \<Rightarrow> int list" where
  "sequentialLoop t totalGames maxOffsets offsets off =
     (if length offsets < maxOffsets \<and> off < totalGames
      then sequentialLoop t totalGames maxOffsets
             (if canFetch t off then offsets @ [off] else offsets) (off + GAMES_PER_REQUEST)
      else offsets)"
  by pat_completeness auto
termination
  by (relation "measure (\<lambda>(t, totalGames, maxOffsets, offsets, off). nat (totalGames - off))")
     (auto simp: GAMES_PER_REQUEST_def)

declare sequentialLoop.simps [simp del]

text \<open>
  \<^verbatim>\<open>getNextOffsets(currentGames, totalGames, maxOffsets)\<close> returns the array and
  leaves the tracker changed by the deletions of the first loop. \<^verbatim>\<open>currentGames\<close>
  is not read.
\<close>

definition getNextOffsets :: "OffsetTracker \<Rightarrow> int \<Rightarrow> int \<Rightarrow> nat \<Rightarrow> int list \<times> OffsetTracker" where
  "getNextOffsets t currentGames totalGames maxOffsets =
     (case retryLoop maxOffsets (failed t) ([], t) of
        (offsets, t') \<Rightarrow>
          (sequentialLoop t' totalGames maxOffsets offsets (getNextSequentialOffset t'), t'))"

text \<open>\<^verbatim>\<open>getStatus\<close>: the three sets as arrays sorted by \<^verbatim>\<open>(a, b) => a - b\<close>.\<close>

record TrackerStatus =
  status_completed :: "int list"
  status_failed :: "int list"
  status_inProgress :: "int list"

definition getStatus :: "OffsetTracker \<Rightarrow> TrackerStatus" where
  "getStatus t = \<lparr>status_completed = sort (completed t),
                  status_failed = sort (failed t),
                  status_inProgress = sort (inProgress t)\<rparr>"

section \<open>Strings and JSON values\<close>

text \<open>
  A JavaScript string is a sequence of UTF-16 code units and \<^verbatim>\<open>length\<close> counts
  them, so a string is a list of code units, each a \<open>nat\<close>. \<open>js\<close> turns a literal
  of this file into one.
\<close>

type_synonym js_string = "nat list"

definition js :: "string \<Rightarrow> js_string" where
  "js s = map of_char s"

text \<open>
  \<^verbatim>\<open>String.prototype.trim\<close> removes the WhiteSpace and LineTerminator code units
  of ECMAScript from both ends: TAB, LF, VT, FF, CR, SP, NBSP, U+1680, U+2000 to
  U+200A, U+2028, U+2029, U+202F, U+205F, U+3000 and U+FEFF.
\<close>

definition isWhiteSpace :: "nat \<Rightarrow> bool" where
  "isWhiteSpace c =
     (c \<in> {9, 10, 11, 12, 13, 32, 160, 5760, 8232, 8233, 8239, 8287, 12288, 65279}
      \<or> (8192 \<le> c \<and> c \<le> 8202))"

definition trim :: "js_string \<Rightarrow> js_string" where
  "trim s = rev (dropWhile isWhiteSpace (rev (dropWhile isWhiteSpace s)))"

text \<open>\<^verbatim>\<open>String.prototype.includes\<close>: the pattern occurs at some position.\<close>

fun String_includes :: "js_string \<Rightarrow> js_string \<Rightarrow> bool" where
  "String_includes [] pat = (pat = [])"
| "String_includes (c # cs) pat = (take (length pat) (c # cs) = pat \<or> String_includes cs pat)"

text \<open>
  The values \<^verbatim>\<open>JSON.parse\<close> produces. Numbers of the payload are counts and are
  kept as integers. An object lists its properties, each name once. A property read
  gives \<open>None\<close> for \<^verbatim>\<open>undefined\<close>.
\<close>

datatype json =
    JNull
  | JBool bool
  | JNumber int
  | JString js_string
  | JArray "json list"
  | JObject "(js_string \<times> json) list"

text \<open>Truthiness, as \<^verbatim>\<open>if (v)\<close>, \<^verbatim>\<open>!v\<close> and \<^verbatim>\<open>v || d\<close> test it.\<close>

fun truthy :: "json option \<Rightarrow> bool" where
  "truthy None = False"
| "truthy (Some JNull) = False"
| "truthy (Some (JBool b)) = b"
| "truthy (Some (JNumber n)) = (n \<noteq> 0)"
| "truthy (Some (JString s)) = (s \<noteq> [])"
| "truthy (Some (JArray vs)) = True"
| "truthy (Some (JObject kvs)) = True"

text \<open>
  \<^verbatim>\<open>v.p\<close> for one of the property names the parser reads (none of them is a
  built-in property of a string, number, boolean or array): a TypeError, here the
  outer \<open>None\<close>, on \<^verbatim>\<open>undefined\<close> and \<^verbatim>\<open>null\<close>; the member of an object;
  \<^verbatim>\<open>undefined\<close> on every other value.
\<close>

fun getProp :: "json option \<Rightarrow> js_string \<Rightarrow> json option option" where
  "getProp None p = None"
| "getProp (Some JNull) p = None"
| "getProp (Some (JObject kvs)) p = Some (map_of kvs p)"
| "getProp (Some v) p = Some None"

text \<open>\<^verbatim>\<open>v?.p\<close>: \<^verbatim>\<open>undefined\<close> instead of the TypeError.\<close>

fun getPropOpt :: "json option \<Rightarrow> js_string \<Rightarrow> json option" where
  "getPropOpt None p = None"
| "getPropOpt (Some JNull) p = None"
| "getPropOpt (Some (JObject kvs)) p = map_of kvs p"
| "getPropOpt (Some v) p = None"

text \<open>
  \<^verbatim>\<open>(v || []).forEach\<close> and \<^verbatim>\<open>(v || []).map\<close>: the elements to visit, or a
  TypeError (\<open>None\<close>) when the truthy value is not an array.
\<close>

definition orEmptyArray :: "json option \<Rightarrow> json list option" where
  "orEmptyArray v =
     (if truthy v then (case v of Some (JArray vs) \<Rightarrow> Some vs | _ \<Rightarrow> None) else Some [])"

text \<open>Running a step that can throw over a list stops at the first throw.\<close>

fun mapThrowing :: "('a \<Rightarrow> 'b option) \<Rightarrow> 'a list \<Rightarrow> 'b list option" where
  "mapThrowing f [] = Some []"
| "mapThrowing f (x # xs) =
     (case f x of
        None \<Rightarrow> None
      | Some y \<Rightarrow> (case mapThrowing f xs of None \<Rightarrow> None | Some ys \<Rightarrow> Some (y # ys)))"

section \<open>The response parser\<close>

record GroupAssociation =
  groupId :: "json option"
  groupSlug :: "json option"
  groupTranslation :: "json option"
  groupType :: "json option"

record Game =
  game_id :: "json option"
  game_name :: "json option"
  game_slug :: "json option"
  thumbnailUrl :: "json option"
  thumbnailBlurHash :: "json option"
  isBlocked :: "json option"
  isWidgetEnabled :: "json option"
  playerCount :: json
  groupGames :: "GroupAssociation list"

text \<open>
  What a parse returns, as far as \<^verbatim>\<open>executeSingleRequest\<close> reads it: the flag
  \<^verbatim>\<open>success\<close> and the array \<^verbatim>\<open>games\<close>. The error text, the provider
  metadata and \<^verbatim>\<open>remainingGames\<close> are logged or ignored by the driver and are
  left out.
\<close>

record ParseResult =
  success :: bool
  games :: "Game list"

text \<open>Every error return of the parser: \<^verbatim>\<open>success: false, games: []\<close>.\<close>

definition parseFailure :: ParseResult where
  "parseFailure = \<lparr>success = False, games = []\<rparr>"

definition groupOf :: "json \<Rightarrow> GroupAssociation option" where
  "groupOf gg =
     (case getProp (Some gg) (js ''group'') of
        None \<Rightarrow> None
      | Some g \<Rightarrow> Some \<lparr>groupId = getPropOpt g (js ''id''),
                         groupSlug = getPropOpt g (js ''slug''),
                         groupTranslation = getPropOpt g (js ''translation''),
                         groupType = getPropOpt g (js ''type'')\<rparr>)"

text \<open>
  The body of \<^verbatim>\<open>gamesList.forEach\<close>: \<open>Some None\<close> when the item has no truthy
  \<^verbatim>\<open>game\<close>, \<open>Some (Some g)\<close> for a pushed game, \<open>None\<close> for a TypeError.
\<close>

definition parseGameItem :: "json \<Rightarrow> Game option option" where
  "parseGameItem gameItem =
     (case getProp (Some gameItem) (js ''game'') of
        None \<Rightarrow> None
      | Some game \<Rightarrow>
          if truthy game then
            (case orEmptyArray (getPropOpt game (js ''groupGames'')) of
               None \<Rightarrow> None
             | Some ggs \<Rightarrow>
                 (case mapThrowing groupOf ggs of
                    None \<Rightarrow> None
                  | Some groups \<Rightarrow>
                      Some (Some \<lparr>game_id = getPropOpt game (js ''id''),
                                  game_name = getPropOpt game (js ''name''),
                                  game_slug = getPropOpt game (js ''slug''),
                                  thumbnailUrl = getPropOpt game (js ''thumbnailUrl''),
                                  thumbnailBlurHash = getPropOpt game (js ''thumbnailBlurHash''),
                                  isBlocked = getPropOpt game (js ''isBlocked''),
                                  isWidgetEnabled = getPropOpt game (js ''isWidgetEnabled''),
                                  playerCount =
                                    (let pc = getPropOpt game (js ''playerCount'')
                                     in if truthy pc then the pc else JNumber 0),
                                  groupGames = groups\<rparr>)))
          else Some None)"

text \<open>
  \<^verbatim>\<open>extractDataFromJson\<close>; \<open>None\<close> when it throws (no \<^verbatim>\<open>slugKuratorGroup\<close>, or a
  TypeError on a payload of another shape).
\<close>

definition extractDataFromJson :: "json \<Rightarrow> ParseResult option" where
  "extractDataFromJson jsonData =
     (case getProp (Some jsonData) (js ''data'') of
        None \<Rightarrow> None
      | Some d \<Rightarrow>
          (let providerData = getPropOpt d (js ''slugKuratorGroup'')
           in if \<not> truthy providerData then None
              else
                (case orEmptyArray (getPropOpt providerData (js ''groupGamesList'')) of
                   None \<Rightarrow> None
                 | Some gamesList \<Rightarrow>
                     (case mapThrowing parseGameItem gamesList of
                        None \<Rightarrow> None
                      | Some pushed \<Rightarrow>
                          Some \<lparr>success = True, games = List.map_filter (\<lambda>g. g) pushed\<rparr>))))"

text \<open>A literal between double quotes; 34 is the double quote.\<close>

definition quoted :: "string \<Rightarrow> js_string" where
  "quoted s = [34] @ js s @ [34]"

text \<open>The two wrapper markers \<^verbatim>\<open>parseStakeResponse\<close> looks for.\<close>

definition resultContainerMarker :: js_string where
  "resultContainerMarker = js ''<div id='' @ quoted ''resultContainer'' @ js ''>''"

definition divMarker :: js_string where
  "divMarker = js ''<div>''"

text \<open>
  \<^verbatim>\<open>parseStakeResponse\<close>. \<^verbatim>\<open>JSON.parse\<close> (\<open>None\<close> for its SyntaxError) and
  \<^verbatim>\<open>parseWithRegex\<close>, which runs the regular-expression engine and catches its own
  errors, are parameters. Whatever is thrown inside the \<^verbatim>\<open>try\<close> is caught and
  gives the error return.
\<close>

definition parseStakeResponse ::
  "(js_string \<Rightarrow> json option) \<Rightarrow> (js_string \<Rightarrow> ParseResult) \<Rightarrow> js_string \<Rightarrow> ParseResult" where
  "parseStakeResponse JSON_parse parseWithRegex responseData =
     (let trimmedResponse = trim responseData
      in if trimmedResponse = js ''error'' \<or> length trimmedResponse < 50 then parseFailure
         else if String_includes responseData resultContainerMarker
                 \<or> String_includes responseData divMarker
         then parseWithRegex responseData
         else
           (case JSON_parse responseData of
              None \<Rightarrow> parseFailure
            | Some jsonData \<Rightarrow>
                (case extractDataFromJson jsonData of
                   None \<Rightarrow> parseFailure
                 | Some result \<Rightarrow> result)))"


definition emptyCatalogJson :: json where
  "emptyCatalogJson =
     JObject [(js ''data'', JObject [(js ''slugKuratorGroup'',
       JObject [(js ''groupGamesList'', JArray []), (js ''gameCount'', JNumber 0)])])]"

definition shortCatalogText :: js_string where
  "shortCatalogText =
     js ''{'' @ quoted ''data'' @ js '':{'' @ quoted ''slugKuratorGroup'' @ js '':{}}}''"

definition shortCatalogJson :: json where
  "shortCatalogJson = JObject [(js ''data'', JObject [(js ''slugKuratorGroup'', JObject [])])]"

text \<open>
  A payload of the wrong shape, long enough to pass the length test:
  \<^verbatim>\<open>{"data":{"slugKuratorGroup":1,"note":"not a provider object"}}\<close>, where the
  provider is a number.
\<close>

definition wrongShapeText :: js_string where
  "wrongShapeText =
     js ''{'' @ quoted ''data'' @ js '':{'' @ quoted ''slugKuratorGroup'' @ js '':1,''
     @ quoted ''note'' @ js '':'' @ quoted ''not a provider object'' @ js ''}}''"

definition wrongShapeJson :: json where
  "wrongShapeJson =
     JObject [(js ''data'', JObject [(js ''slugKuratorGroup'', JNumber 1),
       (js ''note'', JString (js ''not a provider object''))])]"

section \<open>Requests\<close>

record Provider =
  totalGames :: int

text \<open>
  What the spawned fetcher and the response file give to one request: a non-zero exit
  code, no response file, a file that cannot be read, the 90 second timer firing
  first, or the text of the response file. Every case but the last rejects the
  promise of \<^verbatim>\<open>executeSingleRequest\<close> (\<open>None\<close>); the text is parsed and the promise
  resolves with \<^verbatim>\<open>success\<close> and \<^verbatim>\<open>games\<close> of the parse, whatever they are.
\<close>

datatype FetchOutcome =
    ExitFailure
  | NoResponseFile
  | ReadFailure
  | RequestTimeout
  | ResponseData js_string

definition executeSingleRequest :: "(js_string \<Rightarrow> ParseResult) \<Rightarrow> FetchOutcome \<Rightarrow> ParseResult option" where
  "executeSingleRequest parse outcome =
     (case outcome of
        ResponseData responseData \<Rightarrow>
          (let parsed = parse responseData
           in Some \<lparr>success = success parsed, games = games parsed\<rparr>)
      | _ \<Rightarrow> None)"

record RequestResult =
  rr_offset :: int
  rr_games :: "Game list"
  rr_success :: bool

definition requestLimit :: "int \<Rightarrow> int \<Rightarrow> int" where
  "requestLimit tg off = min GAMES_PER_REQUEST (tg - off)"

text \<open>
  The part of the per-offset request function of \<^verbatim>\<open>completeProviderParallel\<close> that
  runs once the request has settled. It works on the tracker and on
  \<^verbatim>\<open>emptyResponseCount\<close>, and returns the value its promise is fulfilled with; it
  catches every rejection, so its own promise is never rejected.
\<close>

definition settleRequest ::
  "(js_string \<Rightarrow> ParseResult) \<Rightarrow> int \<Rightarrow> FetchOutcome \<Rightarrow> OffsetTracker \<times> nat
     \<Rightarrow> RequestResult \<times> OffsetTracker \<times> nat" where
  "settleRequest parse off outcome st =
     (case st of (t, emptyResponseCount) \<Rightarrow>
        (case executeSingleRequest parse outcome of
           Some result \<Rightarrow>
             if success result \<and> length (games result) > 0
             then (\<lparr>rr_offset = off, rr_games = games result, rr_success = True\<rparr>,
                   markCompleted t off (length (games result)), emptyResponseCount)
             else if SKIP_MISSING_GAMES
             then (\<lparr>rr_offset = off, rr_games = [], rr_success = True\<rparr>,
                   markCompleted t off 0, emptyResponseCount + 1)
             else (\<lparr>rr_offset = off, rr_games = [], rr_success = False\<rparr>,
                   snd (markFailed t off), emptyResponseCount + 1)
         | None \<Rightarrow>
             (\<lparr>rr_offset = off, rr_games = [], rr_success = False\<rparr>,
              snd (markFailed t off), emptyResponseCount)))"

text \<open>
  One batch: request \<open>i\<close> of the batch gets the number \<^verbatim>\<open>++requestCount\<close> when the
  batch is created, and \<open>world\<close> gives the outcome of the request with that number,
  offset and limit. The requests are settled here in the order of the batch; the
  program settles them in the order the fetchers finish, which changes the insertion
  order inside the tracker's sets and nothing else.
\<close>

fun settleAll ::
  "(js_string \<Rightarrow> ParseResult) \<Rightarrow> (nat \<Rightarrow> int \<Rightarrow> int \<Rightarrow> FetchOutcome) \<Rightarrow> int \<Rightarrow> nat \<Rightarrow> int list
     \<Rightarrow> OffsetTracker \<times> nat \<Rightarrow> RequestResult list \<times> OffsetTracker \<times> nat" where
  "settleAll parse world tg rc [] st = ([], st)"
| "settleAll parse world tg rc (off # offs) st =
     (case settleRequest parse off (world (rc + 1) off (requestLimit tg off)) st of
        (r, st') \<Rightarrow>
          (case settleAll parse world tg (rc + 1) offs st' of
             (rs, st'') \<Rightarrow> (r # rs, st'')))"

section \<open>Merging results\<close>

datatype Settled = Fulfilled RequestResult | Rejected

text \<open>
  \<^verbatim>\<open>results.forEach((result, index) => ...)\<close> with \<^verbatim>\<open>offsets[index]\<close>: the state
  is the map \<^verbatim>\<open>gamesByOffset\<close>, \<^verbatim>\<open>newGamesAdded\<close> and \<^verbatim>\<open>emptyResponseCount\<close>.
\<close>

fun mergeResults ::
  "(int \<times> Settled) list \<Rightarrow> (int \<times> Game list) list \<times> nat \<times> nat
     \<Rightarrow> (int \<times> Game list) list \<times> nat \<times> nat" where
  "mergeResults [] st = st"
| "mergeResults ((off, Rejected) # rest) st = mergeResults rest st"
| "mergeResults ((off, Fulfilled requestResult) # rest) (gamesByOffset, newGamesAdded, empties) =
     (if rr_success requestResult \<and> length (rr_games requestResult) > 0
      then mergeResults rest
             (Map_set off (rr_games requestResult) gamesByOffset,
              newGamesAdded + length (rr_games requestResult), 0)
      else mergeResults rest (gamesByOffset, newGamesAdded, empties))"

text \<open>The games of all offsets, by ascending offset.\<close>

definition allGamesOf :: "(int \<times> Game list) list \<Rightarrow> Game list" where
  "allGamesOf gamesByOffset = concat (map snd (sort_key fst gamesByOffset))"

definition countGames :: "(int \<times> Game list) list \<Rightarrow> nat" where
  "countGames gamesByOffset = sum_list (map (\<lambda>(off, gs). length gs) gamesByOffset)"

section \<open>Numbers as property keys\<close>

text \<open>
  \<^verbatim>\<open>Object.fromEntries\<close> turns the numeric keys of the retry map into property
  names, the decimal text of the number, and the restore reads them back with
  \<^verbatim>\<open>parseInt\<close>. Offsets are far below the size at which JavaScript prints a
  number with an exponent. 48 is the digit 0, 45 the minus sign, 43 the plus sign,
  120 and 88 the letters x and X.
\<close>

function digitsOf :: "nat \<Rightarrow> js_string" where
  "digitsOf n = (if n < 10 then [48 + n] else digitsOf (n div 10) @ [48 + n mod 10])"
  by pat_completeness auto
termination
  by (relation "measure (\<lambda>n. n)") auto

declare digitsOf.simps [simp del]

definition Number_toString :: "int \<Rightarrow> js_string" where
  "Number_toString n = (if n < 0 then 45 # digitsOf (nat (- n)) else digitsOf (nat n))"

text \<open>The value of a digit in a radix up to 36: 0 to 9, then a to z or A to Z.\<close>

definition digitValue :: "nat \<Rightarrow> nat option" where
  "digitValue c =
     (if 48 \<le> c \<and> c \<le> 57 then Some (c - 48)
      else if 97 \<le> c \<and> c \<le> 122 then Some (c - 87)
      else if 65 \<le> c \<and> c \<le> 90 then Some (c - 55)
      else None)"

definition isRadixDigit :: "nat \<Rightarrow> nat \<Rightarrow> bool" where
  "isRadixDigit R c = (case digitValue c of None \<Rightarrow> False | Some d \<Rightarrow> d < R)"

definition radixValue :: "nat \<Rightarrow> js_string \<Rightarrow> nat" where
  "radixValue R Z = foldl (\<lambda>acc c. acc * R + (case digitValue c of None \<Rightarrow> 0 | Some d \<Rightarrow> d)) 0 Z"

text \<open>
  \<^verbatim>\<open>parseInt(string)\<close> without a radix: leading white space is skipped, a sign is
  read, \<^verbatim>\<open>0x\<close> or \<^verbatim>\<open>0X\<close> selects radix 16, and the longest run of digits is the
  value; \<open>None\<close> is \<^verbatim>\<open>NaN\<close>.
\<close>

definition parseInt :: "js_string \<Rightarrow> int option" where
  "parseInt inputString =
     (let s = dropWhile isWhiteSpace inputString;
          negative = (take 1 s = [45]);
          s1 = (if take 1 s = [43] \<or> take 1 s = [45] then drop 1 s else s);
          hex = (take 2 s1 = [48, 120] \<or> take 2 s1 = [48, 88]);
          R = (if hex then 16 else 10);
          s2 = (if hex then drop 2 s1 else s1);
          Z = takeWhile (isRadixDigit R) s2
      in if Z = [] then None
         else Some (if negative then - int (radixValue R Z) else int (radixValue R Z)))"

text \<open>
  \<^verbatim>\<open>Object.fromEntries(tracker.retryCount)\<close>: each entry of the map becomes a
  property, a later entry with the same name overwriting an earlier one.
\<close>

definition Object_fromEntries :: "(int \<times> int) list \<Rightarrow> (js_string \<times> int) list" where
  "Object_fromEntries m = fold (\<lambda>(k, v) obj. AList.update (Number_toString k) v obj) m []"

text \<open>
  \<^verbatim>\<open>Object.entries\<close> lists the properties whose name is an array index (the
  canonical decimal text of an integer from 0 to 4294967294) first, by ascending
  value, and then the others in the order they were created.
\<close>

definition isArrayIndex :: "js_string \<Rightarrow> bool" where
  "isArrayIndex key =
     (key \<noteq> [] \<and> list_all (\<lambda>c. 48 \<le> c \<and> c \<le> 57) key
      \<and> (key = [48] \<or> take 1 key \<noteq> [48]) \<and> radixValue 10 key < 4294967295)"

definition Object_entries :: "(js_string \<times> 'v) list \<Rightarrow> (js_string \<times> 'v) list" where
  "Object_entries obj =
     sort_key (\<lambda>(key, v). radixValue 10 key) (filter (\<lambda>(key, v). isArrayIndex key) obj)
     @ filter (\<lambda>(key, v). \<not> isArrayIndex key) obj"

section \<open>Checkpoint and games file\<close>

text \<open>
  The fields of the checkpoint that depend on the run. \<^verbatim>\<open>failed_offsets\<close> and
  \<^verbatim>\<open>retry_counts\<close> are optional because the restore tests whether they are
  present. The disk holds the games file and the checkpoint of the provider, each
  \<open>None\<close> while there is no readable file. Writes are assumed to succeed.
\<close>

record CheckpointData =
  status_completed_flag :: bool
  total_games :: int
  games_fetched :: nat
  is_complete :: bool
  needs_pagination :: bool
  completed_offsets :: "int list"
  failed_offsets :: "int list option"
  retry_counts :: "(js_string \<times> int) list option"
  last_successful_offset :: int

record Disk =
  gamesFile :: "Game list option"
  checkpointFile :: "CheckpointData option"

definition saveProviderData :: "Provider \<Rightarrow> Game list \<Rightarrow> OffsetTracker \<Rightarrow> Disk" where
  "saveProviderData provider allGames tracker =
     (let status = getStatus tracker
      in \<lparr>gamesFile = Some allGames,
          checkpointFile = Some
            \<lparr>status_completed_flag = (int (length allGames) \<ge> totalGames provider),
             total_games = totalGames provider,
             games_fetched = length allGames,
             is_complete = (int (length allGames) \<ge> totalGames provider),
             needs_pagination = (int (length allGames) < totalGames provider),
             completed_offsets = status_completed status,
             failed_offsets = Some (status_failed status),
             retry_counts = Some (Object_fromEntries (retryCount tracker)),
             last_successful_offset = fold max (status_completed status) (- 1)\<rparr>\<rparr>)"

text \<open>
  The restore at the start of \<^verbatim>\<open>completeProviderParallel\<close>: the failed offsets and
  the retry counts of the checkpoint are put into the tracker;
  \<^verbatim>\<open>completed_offsets\<close> is not read. A key that \<^verbatim>\<open>parseInt\<close> reads as
  \<^verbatim>\<open>NaN\<close> gives an entry no offset can look up, so it is skipped.
\<close>

definition restoreCheckpoint :: "CheckpointData option \<Rightarrow> OffsetTracker \<Rightarrow> OffsetTracker" where
  "restoreCheckpoint cp t =
     (case cp of
        None \<Rightarrow> t
      | Some checkpointData \<Rightarrow>
          (let t1 = (case failed_offsets checkpointData of
                       None \<Rightarrow> t
                     | Some fs \<Rightarrow> fold (\<lambda>off tr. tr\<lparr>failed := Set_add off (failed tr)\<rparr>) fs t)
           in (case retry_counts checkpointData of
                 None \<Rightarrow> t1
               | Some counts \<Rightarrow>
                   fold (\<lambda>(key, count) tr.
                           (case parseInt key of
                              None \<Rightarrow> tr
                            | Some off \<Rightarrow> tr\<lparr>retryCount := Map_set off count (retryCount tr)\<rparr>))
                        (Object_entries counts) t1)))"

text \<open>
  Loading the games file: \<^verbatim>\<open>for (let i = 0; i < existingGames.length; i += 39)\<close>
  puts the slice from \<open>i\<close> under the offset \<open>i\<close>.
\<close>

function loadGamesByOffset :: "Game list \<Rightarrow> nat \<Rightarrow> (int \<times> Game list) list \<Rightarrow> (int \<times> Game list) list" where
  "loadGamesByOffset existingGames i gamesByOffset =
     (if i < length existingGames
      then loadGamesByOffset existingGames (i + nat GAMES_PER_REQUEST)
             (Map_set (int i) (take (nat GAMES_PER_REQUEST) (drop i existingGames)) gamesByOffset)
      else gamesByOffset)"
  by pat_completeness auto
termination
  by (relation "measure (\<lambda>(existingGames, i, gamesByOffset). length existingGames - i)")
     (auto simp: GAMES_PER_REQUEST_def)

declare loadGamesByOffset.simps [simp del]

text \<open>\<^verbatim>\<open>for (const [offset, games] of gamesByOffset.entries()) tracker.markCompleted(...)\<close>\<close>

definition markExisting :: "(int \<times> Game list) list \<Rightarrow> OffsetTracker \<Rightarrow> OffsetTracker" where
  "markExisting gamesByOffset t =
     fold (\<lambda>(off, gs) tr. markCompleted tr off (length gs)) gamesByOffset t"

text \<open>
  The tracker a run starts with: a new tracker, the restore from the checkpoint, and
  then the offsets of the loaded games marked completed.
\<close>

definition existingGamesByOffset :: "Disk \<Rightarrow> (int \<times> Game list) list" where
  "existingGamesByOffset disk0 =
     loadGamesByOffset (case gamesFile disk0 of None \<Rightarrow> [] | Some gs \<Rightarrow> gs) 0 []"

definition initialTracker :: "Disk \<Rightarrow> OffsetTracker" where
  "initialTracker disk0 =
     markExisting (existingGamesByOffset disk0)
       (restoreCheckpoint (checkpointFile disk0) OffsetTracker_new)"

section \<open>The driver loop\<close>

record DriverState =
  tracker :: OffsetTracker
  gamesByOffset :: "(int \<times> Game list) list"
  totalExistingGames :: nat
  emptyResponseCount :: nat
  requestCount :: nat
  disk :: Disk

datatype LoopStep = Break DriverState | Continue DriverState

definition hasRetryableFailures :: "OffsetTracker \<Rightarrow> bool" where
  "hasRetryableFailures t = list_ex (\<lambda>off. retries_of t off < MAX_RETRIES) (failed t)"

text \<open>
  One round of \<^verbatim>\<open>while (totalExistingGames < provider.totalGames &&
  emptyResponseCount < CONFIG.MAX_EMPTY_ATTEMPTS)\<close>, the loop test included:
  \<open>Break\<close> when the loop is left, \<open>Continue\<close> when it goes round again. The two
  waiting branches go round with the state they found.
\<close>

definition iteration ::
  "(js_string \<Rightarrow> ParseResult) \<Rightarrow> (nat \<Rightarrow> int \<Rightarrow> int \<Rightarrow> FetchOutcome) \<Rightarrow> Provider \<Rightarrow> DriverState
     \<Rightarrow> LoopStep" where
  "iteration parse world provider s =
     (if \<not> (int (totalExistingGames s) < totalGames provider
             \<and> emptyResponseCount s < MAX_EMPTY_ATTEMPTS) then Break s
      else if length (failed (tracker s)) \<ge> 3 then Break s
      else
        (case getNextOffsets (tracker s) (int (totalExistingGames s)) (totalGames provider)
                MAX_CONCURRENT_REQUESTS of
           (offsets, t0) \<Rightarrow>
             if offsets = [] then
               (if hasRetryableFailures t0 then Continue (s\<lparr>tracker := t0\<rparr>)
                else if inProgress t0 \<noteq> [] then Continue (s\<lparr>tracker := t0\<rparr>)
                else Break (s\<lparr>tracker := t0\<rparr>))
             else
               (case settleAll parse world (totalGames provider) (requestCount s) offsets
                       (fold (\<lambda>off tr. markInProgress tr off) offsets t0, emptyResponseCount s) of
                  (results, t2, e2) \<Rightarrow>
                    (case mergeResults (zip offsets (map Fulfilled results))
                            (gamesByOffset s, 0, e2) of
                       (gbo, newGamesAdded, e3) \<Rightarrow>
                         (let s1 = s\<lparr>tracker := t2, gamesByOffset := gbo,
                                      emptyResponseCount := e3,
                                      requestCount := requestCount s + length offsets\<rparr>
                          in if newGamesAdded > 0 then
                               (let s2 = s1\<lparr>totalExistingGames := countGames gbo,
                                             disk := saveProviderData provider (allGamesOf gbo) t2\<rparr>
                                in if int (countGames gbo) \<ge> totalGames provider
                                   then Break s2 else Continue s2)
                             else Continue s1)))))"

text \<open>The loop; \<open>None\<close> when it never ends.\<close>

partial_function (option) driverLoop ::
  "(js_string \<Rightarrow> ParseResult) \<Rightarrow> (nat \<Rightarrow> int \<Rightarrow> int \<Rightarrow> FetchOutcome) \<Rightarrow> Provider \<Rightarrow> DriverState
     \<Rightarrow> DriverState option" where
  "driverLoop parse world provider s =
     (case iteration parse world provider s of
        Break s' \<Rightarrow> Some s'
      | Continue s' \<Rightarrow> driverLoop parse world provider s')"

record CompletionResult =
  result_totalGames :: nat
  requestsMade :: nat
  isComplete :: bool

text \<open>
  \<^verbatim>\<open>completeProviderParallel\<close>: the result and the disk it leaves, \<open>None\<close> when the
  loop never ends.
\<close>

definition completeProviderParallel ::
  "(js_string \<Rightarrow> ParseResult) \<Rightarrow> (nat \<Rightarrow> int \<Rightarrow> int \<Rightarrow> FetchOutcome) \<Rightarrow> Provider \<Rightarrow> Disk
     \<Rightarrow> (CompletionResult \<times> Disk) option" where
  "completeProviderParallel parse world provider disk0 =
     (let gbo = existingGamesByOffset disk0
      in if int (countGames gbo) \<ge> totalGames provider
         then Some (\<lparr>result_totalGames = countGames gbo, requestsMade = 0, isComplete = True\<rparr>,
                    disk0)
         else
           (case driverLoop parse world provider
                   \<lparr>tracker = initialTracker disk0, gamesByOffset = gbo,
                    totalExistingGames = countGames gbo, emptyResponseCount = 0,
                    requestCount = 0, disk = disk0\<rparr> of
              None \<Rightarrow> None
            | Some s \<Rightarrow>
                (let finalGames = allGamesOf (gamesByOffset s)
                 in Some (\<lparr>result_totalGames = length finalGames,
                            requestsMade = requestCount s,
                            isComplete = (int (length finalGames) \<ge> totalGames provider)\<rparr>,
                          saveProviderData provider finalGames (tracker s)))))"

text \<open>
  Examples: a game, and the state of a run for a provider of 200 games in which the
  offsets 0, 39 and 78 have each failed 20 times.
\<close>

definition exampleGame :: Game where
  "exampleGame =
     \<lparr>game_id = Some (JString (js ''g1'')), game_name = Some (JString (js ''Game One'')),
      game_slug = Some (JString (js ''game-one'')), thumbnailUrl = None,
      thumbnailBlurHash = None, isBlocked = Some (JBool False),
      isWidgetEnabled = Some (JBool True), playerCount = JNumber 0, groupGames = []\<rparr>"

definition threeFailedState :: DriverState where
  "threeFailedState =
     \<lparr>tracker = \<lparr>completed = [], failed = [0, 39, 78], inProgress = [],
                 retryCount = [(0, 20), (39, 20), (78, 20)]\<rparr>,
      gamesByOffset = [], totalExistingGames = 0, emptyResponseCount = 0,
      requestCount = 60, disk = \<lparr>gamesFile = None, checkpointFile = None\<rparr>\<rparr>"

text \<open>
  The state of the same run after \<open>n\<close> rounds in which the three requests timed
  out, while \<open>n\<close> is below 20.
\<close>

definition timeoutRoundState :: "nat \<Rightarrow> DriverState" where
  "timeoutRoundState n =
     \<lparr>tracker = \<lparr>completed = [], failed = [], inProgress = [],
                 retryCount = [(0, int n), (39, int n), (78, int n)]\<rparr>,
      gamesByOffset = [], totalExistingGames = 0, emptyResponseCount = 0,
      requestCount = 3 * n, disk = \<lparr>gamesFile = None, checkpointFile = None\<rparr>\<rparr>"

text \<open>
  A checkpoint as a run leaves it for a provider of 100 games when the page at 39
  has failed for good and the pages at 0 and 78 gave 39 and 22 games.
\<close>

definition exampleCheckpoint :: CheckpointData where
  "exampleCheckpoint =
     \<lparr>status_completed_flag = False, total_games = 100, games_fetched = 61,
      is_complete = False, needs_pagination = True, completed_offsets = [0, 78],
      failed_offsets = Some [39], retry_counts = Some [(js ''39'', 20)],
      last_successful_offset = 78\<rparr>"

section \<open>Sequences of tracker operations\<close>

text \<open>
  The operations that change a tracker, as values, to speak about the states a
  sequence of them reaches.
\<close>

datatype TrackerOp =
    MarkInProgress int
  | MarkCompleted int nat
  | MarkFailed int
  | GetNextOffsets int int nat
  | RestoreCheckpoint CheckpointData

fun applyOp :: "OffsetTracker \<Rightarrow> TrackerOp \<Rightarrow> OffsetTracker" where
  "applyOp t (MarkInProgress off) = markInProgress t off"
| "applyOp t (MarkCompleted off n) = markCompleted t off n"
| "applyOp t (MarkFailed off) = snd (markFailed t off)"
| "applyOp t (GetNextOffsets currentGames tg maxOffsets) =
     snd (getNextOffsets t currentGames tg maxOffsets)"
| "applyOp t (RestoreCheckpoint checkpointData) = restoreCheckpoint (Some checkpointData) t"

definition applyOps :: "OffsetTracker \<Rightarrow> TrackerOp list \<Rightarrow> OffsetTracker" where
  "applyOps t ops = foldl applyOp t ops"

definition pairwiseDisjoint :: "OffsetTracker \<Rightarrow> bool" where
  "pairwiseDisjoint t =
     (set (completed t) \<inter> set (failed t) = {}
      \<and> set (completed t) \<inter> set (inProgress t) = {}
      \<and> set (failed t) \<inter> set (inProgress t) = {})"

text \<open>
  The conditions under which a call leaves the three sets apart: the tracker itself
  checks none of them, its caller has to.
\<close>

fun keepsApart :: "OffsetTracker \<Rightarrow> TrackerOp \<Rightarrow> bool" where
  "keepsApart t (MarkInProgress off) = (\<not> isCompleted t off \<and> \<not> isFailed t off)"
| "keepsApart t (MarkCompleted off n) = (\<not> isFailed t off)"
| "keepsApart t (MarkFailed off) = (\<not> isCompleted t off)"
| "keepsApart t (GetNextOffsets currentGames tg maxOffsets) = True"
| "keepsApart t (RestoreCheckpoint checkpointData) =
     (case failed_offsets checkpointData of
        None \<Rightarrow> True
      | Some fs \<Rightarrow> list_all (\<lambda>off. \<not> isCompleted t off \<and> \<not> isInProgress t off) fs)"

fun guardedRun :: "OffsetTracker \<Rightarrow> TrackerOp list \<Rightarrow> bool" where
  "guardedRun t [] = True"
| "guardedRun t (opn # ops) = (keepsApart t opn \<and> guardedRun (applyOp t opn) ops)"

section \<open>Properties of the tracker\<close>

lemma set_Set_add: "set (Set_add x xs) = insert x (set xs)"
  by (auto simp: Set_add_def)

lemma set_Set_delete: "set (Set_delete x xs) = set xs - {x}"
  by (auto simp: Set_delete_def)

lemma distinct_Set_add: "distinct xs \<Longrightarrow> distinct (Set_add x xs)"
  by (simp add: Set_add_def)

lemma distinct_Set_delete: "distinct xs \<Longrightarrow> distinct (Set_delete x xs)"
  by (simp add: Set_delete_def distinct_removeAll)

lemma retryLoop_skips_failed:
  "set fs \<subseteq> set (failed t) \<Longrightarrow> retryLoop m fs (offs, t) = (offs, t)"
  by (induction fs) (auto simp: canFetch_def isFailed_def)

lemma sequentialLoop_step:
  "length offs < m \<and> off < tg \<Longrightarrow>
   sequentialLoop t tg m offs off =
     sequentialLoop t tg m (if canFetch t off then offs @ [off] else offs)
       (off + GAMES_PER_REQUEST)"
  by (subst sequentialLoop.simps) simp

lemma sequentialLoop_stop:
  "\<not> (length offs < m \<and> off < tg) \<Longrightarrow> sequentialLoop t tg m offs off = offs"
  by (subst sequentialLoop.simps) auto

lemma sequentialLoop_length:
  "length offs \<le> m \<Longrightarrow> length (sequentialLoop t tg m offs off) \<le> m"
proof (induction t tg m offs off rule: sequentialLoop.induct)
  case (1 t tg m offs off)
  show ?case
  proof (cases "length offs < m \<and> off < tg")
    case True
    then have "length (if canFetch t off then offs @ [off] else offs) \<le> m"
      by simp
    with True "1.IH" show ?thesis
      by (simp only: sequentialLoop_step [OF True])
  next
    case False
    with "1.prems" show ?thesis
      by (simp only: sequentialLoop_stop [OF False])
  qed
qed

lemma sequentialLoop_members:
  "x \<in> set (sequentialLoop t tg m offs off) \<Longrightarrow> x \<in> set offs \<or> canFetch t x"
proof (induction t tg m offs off rule: sequentialLoop.induct)
  case (1 t tg m offs off)
  show ?case
  proof (cases "length offs < m \<and> off < tg")
    case True
    with "1.prems" have "x \<in> set (sequentialLoop t tg m
        (if canFetch t off then offs @ [off] else offs) (off + GAMES_PER_REQUEST))"
      by (simp only: sequentialLoop_step [OF True])
    with True "1.IH" have "x \<in> set (if canFetch t off then offs @ [off] else offs) \<or> canFetch t x"
      by blast
    then show ?thesis
      by (auto split: if_splits)
  next
    case False
    with "1.prems" show ?thesis
      by (simp add: sequentialLoop_stop [OF False])
  qed
qed

lemma getNextOffsets_eq:
  "getNextOffsets t cg tg m = (sequentialLoop t tg m [] (getNextSequentialOffset t), t)"
  by (simp add: getNextOffsets_def retryLoop_skips_failed)

text \<open>
  C4. For every tracker and all arguments, \<^verbatim>\<open>getNextOffsets\<close> returns at most
  \<^verbatim>\<open>maxOffsets\<close> offsets, and none of them was, when the call started, completed,
  failed with a retry count at or above \<^verbatim>\<open>MAX_RETRIES\<close>, or in progress.
\<close>

theorem getNextOffsets_bounded_and_fetchable:
  "length (fst (getNextOffsets t cg tg m)) \<le> m
   \<and> (\<forall>off \<in> set (fst (getNextOffsets t cg tg m)).
        \<not> isCompleted t off
        \<and> \<not> (isFailed t off \<and> retries_of t off \<ge> MAX_RETRIES)
        \<and> \<not> isInProgress t off)"
proof -
  have "length (sequentialLoop t tg m [] (getNextSequentialOffset t)) \<le> m"
    by (rule sequentialLoop_length) simp
  moreover have "canFetch t off"
    if "off \<in> set (sequentialLoop t tg m [] (getNextSequentialOffset t))" for off
    using sequentialLoop_members [OF that] by simp
  ultimately show ?thesis
    by (auto simp: getNextOffsets_eq canFetch_def)
qed

theorem getNextOffsets_bounded_and_fetchable_witness:
  "117 \<in> set (fst (getNextOffsets
       \<lparr>completed = [0], failed = [39], inProgress = [78], retryCount = [(39, 20)]\<rparr> 0 200 3))
   \<and> length (fst (getNextOffsets
       \<lparr>completed = [0], failed = [39], inProgress = [78], retryCount = [(39, 20)]\<rparr> 0 200 3)) \<le> 3
   \<and> \<not> isCompleted
       \<lparr>completed = [0], failed = [39], inProgress = [78], retryCount = [(39, 20)]\<rparr> 117
   \<and> \<not> isInProgress
       \<lparr>completed = [0], failed = [39], inProgress = [78], retryCount = [(39, 20)]\<rparr> 117"
proof -
  let ?t = "\<lparr>completed = [0], failed = [39], inProgress = [78], retryCount = [(39, 20)]\<rparr>"
  have "fst (getNextOffsets ?t 0 200 3) = [117, 156, 195]"
    by (simp add: getNextOffsets_def getNextSequentialOffset_def canFetch_def isCompleted_def
        isFailed_def isInProgress_def GAMES_PER_REQUEST_def sequentialLoop.simps
        firstUncompleted.simps)
  then have "117 \<in> set (fst (getNextOffsets ?t 0 200 3))"
    by simp
  with getNextOffsets_bounded_and_fetchable [of ?t 0 200 3] show ?thesis
    by blast
qed

lemma getNextOffsets_never_failed:
  "set (fst (getNextOffsets t cg tg m)) \<inter> set (failed t) = {}"
proof -
  have "canFetch t off"
    if "off \<in> set (sequentialLoop t tg m [] (getNextSequentialOffset t))" for off
    using sequentialLoop_members [OF that] by simp
  then show ?thesis
    by (auto simp: getNextOffsets_eq canFetch_def isFailed_def)
qed

text \<open>
  C3, at a tracker restored from a checkpoint with the failed offset 39 and 5 of 20
  retries used, for a provider of 100 games: the offset can still be retried, and
  \<^verbatim>\<open>getNextOffsets\<close> returns the new offsets 0 and 78 without it and leaves it in
  \<^verbatim>\<open>failed\<close>. The first loop asks \<^verbatim>\<open>canFetch\<close> of an offset it has just taken
  from \<^verbatim>\<open>failed\<close>, which \<^verbatim>\<open>canFetch\<close> denies.
\<close>

theorem getNextOffsets_omits_retryable_failed:
  "retries_of \<lparr>completed = [], failed = [39], inProgress = [], retryCount = [(39, 5)]\<rparr> 39
     < MAX_RETRIES
   \<and> getNextOffsets \<lparr>completed = [], failed = [39], inProgress = [], retryCount = [(39, 5)]\<rparr>
       0 100 3
     = ([0, 78], \<lparr>completed = [], failed = [39], inProgress = [], retryCount = [(39, 5)]\<rparr>)"
  by (simp add: getNextOffsets_def getNextSequentialOffset_def canFetch_def isCompleted_def
      isFailed_def isInProgress_def GAMES_PER_REQUEST_def retries_of_def Map_get_def
      MAX_RETRIES_def sequentialLoop.simps firstUncompleted.simps)

text \<open>
  C9. For a provider of 100 games and a tracker with no completed, failed or
  in-progress offset, the first batch is the offsets 0, 39 and 78, and the limits
  \<^verbatim>\<open>Math.min(39, totalGames - offset)\<close> of its requests are 39, 39 and 22.
\<close>

theorem first_batch_plan:
  assumes "completed t = []" and "failed t = []" and "inProgress t = []"
  shows "fst (getNextOffsets t cg 100 MAX_CONCURRENT_REQUESTS) = [0, 39, 78]
         \<and> map (requestLimit 100) (fst (getNextOffsets t cg 100 MAX_CONCURRENT_REQUESTS))
             = [39, 39, 22]"
proof -
  have "canFetch t off" for off
    using assms by (simp add: canFetch_def isCompleted_def isFailed_def isInProgress_def)
  moreover have "getNextSequentialOffset t = 0"
    using assms by (simp add: getNextSequentialOffset_def isCompleted_def firstUncompleted.simps)
  ultimately have "fst (getNextOffsets t cg 100 MAX_CONCURRENT_REQUESTS) = [0, 39, 78]"
    by (simp add: getNextOffsets_eq MAX_CONCURRENT_REQUESTS_def GAMES_PER_REQUEST_def
        sequentialLoop.simps)
  then show ?thesis
    by (simp add: requestLimit_def GAMES_PER_REQUEST_def)
qed

theorem first_batch_plan_witness:
  "completed OffsetTracker_new = [] \<and> failed OffsetTracker_new = []
   \<and> inProgress OffsetTracker_new = []
   \<and> fst (getNextOffsets OffsetTracker_new 0 100 MAX_CONCURRENT_REQUESTS) = [0, 39, 78]
   \<and> map (requestLimit 100) (fst (getNextOffsets OffsetTracker_new 0 100 MAX_CONCURRENT_REQUESTS))
       = [39, 39, 22]"
proof -
  have c: "completed OffsetTracker_new = []" and f: "failed OffsetTracker_new = []"
    and p: "inProgress OffsetTracker_new = []"
    by (simp_all add: OffsetTracker_new_def)
  from first_batch_plan [OF c f p, of 0] c f p show ?thesis
    by blast
qed

section \<open>Properties of the parser\<close>

lemma js_error: "js ''error'' = [101, 114, 114, 111, 114]"
  by (simp add: js_def)


lemma trim_error: "trim (js ''error'') = js ''error''"
  by (simp add: js_error trim_def isWhiteSpace_def)

lemma parseStakeResponse_rejects:
  "trim d = js ''error'' \<or> length (trim d) < 50 \<Longrightarrow> parseStakeResponse jp pw d = parseFailure"
  by (simp add: parseStakeResponse_def Let_def)

lemma parseStakeResponse_direct_json:
  assumes "50 \<le> length (trim d)"
    and "\<not> String_includes d resultContainerMarker" and "\<not> String_includes d divMarker"
    and "jp d = Some j" and "extractDataFromJson j = Some r"
  shows "parseStakeResponse jp pw d = r"
proof -
  have "trim d \<noteq> js ''error''"
    using assms(1) by (auto simp: js_error)
  with assms show ?thesis
    by (simp add: parseStakeResponse_def Let_def)
qed


lemma shortCatalogText_units:
  "shortCatalogText =
     [123, 34, 100, 97, 116, 97, 34, 58, 123, 34, 115, 108, 117, 103, 75, 117, 114, 97, 116,
      111, 114, 71, 114, 111, 117, 112, 34, 58, 123, 125, 125, 125]"
  by (simp add: shortCatalogText_def js_def quoted_def)

lemma markers_units:
  "resultContainerMarker =
     [60, 100, 105, 118, 32, 105, 100, 61, 34, 114, 101, 115, 117, 108, 116, 67, 111, 110,
      116, 97, 105, 110, 101, 114, 34, 62]"
  "divMarker = [60, 100, 105, 118, 62]"
  by (simp_all add: resultContainerMarker_def divMarker_def js_def quoted_def)

lemma extract_emptyCatalog:
  "extractDataFromJson emptyCatalogJson = Some \<lparr>success = True, games = []\<rparr>"
  by (simp add: extractDataFromJson_def emptyCatalogJson_def js_def orEmptyArray_def Let_def
      List.map_filter_def)

lemma extract_shortCatalog:
  "extractDataFromJson shortCatalogJson = Some \<lparr>success = True, games = []\<rparr>"
  by (simp add: extractDataFromJson_def shortCatalogJson_def js_def orEmptyArray_def Let_def
      List.map_filter_def)


lemma shortCatalogText_length: "length (trim shortCatalogText) = 32"
  by (simp add: shortCatalogText_units trim_def isWhiteSpace_def)


lemma wrongShapeText_facts:
  "length (trim wrongShapeText) = 62"
  "\<not> String_includes wrongShapeText resultContainerMarker"
  "\<not> String_includes wrongShapeText divMarker"
  by (simp_all add: wrongShapeText_def js_def quoted_def markers_units trim_def
      isWhiteSpace_def)

text \<open>
  A payload whose provider is the number 1 is taken for a provider without games:
  \<^verbatim>\<open>extractDataFromJson\<close> only tests that \<^verbatim>\<open>slugKuratorGroup\<close> is truthy.
\<close>

lemma wrong_shape_payload_succeeds:
  "parseStakeResponse (\<lambda>s. if s = wrongShapeText then Some wrongShapeJson else None) pw
     wrongShapeText
   = \<lparr>success = True, games = []\<rparr>"
proof -
  have "extractDataFromJson wrongShapeJson = Some \<lparr>success = True, games = []\<rparr>"
    by (simp add: extractDataFromJson_def wrongShapeJson_def js_def orEmptyArray_def Let_def
        List.map_filter_def)
  moreover have "50 \<le> length (trim wrongShapeText)"
    by (simp add: wrongShapeText_facts)
  ultimately show ?thesis
    by (intro parseStakeResponse_direct_json [where j = wrongShapeJson])
       (simp_all add: wrongShapeText_facts)
qed




text \<open>
  C10. A response whose trimmed length is below 50 is rejected whatever it holds,
  also when it is a valid provider payload.
\<close>

theorem short_response_is_parse_failure:
  "length (trim d) < 50 \<Longrightarrow>
   success (parseStakeResponse jp pw d) = False \<and> games (parseStakeResponse jp pw d) = []"
  by (simp add: parseStakeResponse_rejects parseFailure_def)

theorem short_response_is_parse_failure_witness:
  "length (trim shortCatalogText) < 50
   \<and> extractDataFromJson shortCatalogJson = Some \<lparr>success = True, games = []\<rparr>
   \<and> success (parseStakeResponse (\<lambda>s. Some shortCatalogJson) (\<lambda>s. parseFailure)
        shortCatalogText) = False
   \<and> games (parseStakeResponse (\<lambda>s. Some shortCatalogJson) (\<lambda>s. parseFailure)
        shortCatalogText) = []"
proof -
  have len: "length (trim shortCatalogText) < 50"
    by (simp add: shortCatalogText_length)
  from short_response_is_parse_failure
         [OF len, of "\<lambda>s. Some shortCatalogJson" "\<lambda>s. parseFailure"]
    len extract_shortCatalog
  show ?thesis
    by blast
qed

section \<open>Properties of the driver\<close>

lemma settleRequest_rejected:
  "executeSingleRequest parse outcome = None \<Longrightarrow>
   settleRequest parse off outcome (t, e)
     = (\<lparr>rr_offset = off, rr_games = [], rr_success = False\<rparr>, snd (markFailed t off), e)"
  by (simp add: settleRequest_def)

lemma settleRequest_games:
  "success (parse d) \<Longrightarrow> games (parse d) \<noteq> [] \<Longrightarrow>
   settleRequest parse off (ResponseData d) (t, e)
     = (\<lparr>rr_offset = off, rr_games = games (parse d), rr_success = True\<rparr>,
        markCompleted t off (length (games (parse d))), e)"
  by (simp add: settleRequest_def executeSingleRequest_def)

lemma settleRequest_no_games:
  "\<not> (success (parse d) \<and> games (parse d) \<noteq> []) \<Longrightarrow>
   settleRequest parse off (ResponseData d) (t, e)
     = (\<lparr>rr_offset = off, rr_games = [], rr_success = True\<rparr>, markCompleted t off 0, e + 1)"
  by (auto simp: settleRequest_def executeSingleRequest_def SKIP_MISSING_GAMES_def)

text \<open>
  C2, at the response \<^verbatim>\<open>error\<close> for the offset 39 of a fresh run: the parse
  fails, and the request function counts an empty response, marks the offset
  completed and leaves its retry count alone; a timeout on the same request counts a
  retry and leaves the offset open.
\<close>

theorem parse_failure_marked_completed:
  "success (parseStakeResponse jp pw (js ''error'')) = False
   \<and> settleRequest (parseStakeResponse jp pw) 39 (ResponseData (js ''error''))
        (markInProgress OffsetTracker_new 39, 0)
      = (\<lparr>rr_offset = 39, rr_games = [], rr_success = True\<rparr>,
         \<lparr>completed = [39], failed = [], inProgress = [], retryCount = []\<rparr>, 1)
   \<and> settleRequest (parseStakeResponse jp pw) 39 RequestTimeout
        (markInProgress OffsetTracker_new 39, 0)
      = (\<lparr>rr_offset = 39, rr_games = [], rr_success = False\<rparr>,
         \<lparr>completed = [], failed = [], inProgress = [], retryCount = [(39, 1)]\<rparr>, 0)"
proof -
  have p: "parseStakeResponse jp pw (js ''error'') = parseFailure"
    by (rule parseStakeResponse_rejects) (simp add: trim_error)
  then have "\<not> (success (parseStakeResponse jp pw (js ''error''))
               \<and> games (parseStakeResponse jp pw (js ''error'')) \<noteq> [])"
    by (simp add: parseFailure_def)
  then have "settleRequest (parseStakeResponse jp pw) 39 (ResponseData (js ''error''))
        (markInProgress OffsetTracker_new 39, 0)
      = (\<lparr>rr_offset = 39, rr_games = [], rr_success = True\<rparr>,
         markCompleted (markInProgress OffsetTracker_new 39) 39 0, 0 + 1)"
    by (rule settleRequest_no_games)
  moreover have "markCompleted (markInProgress OffsetTracker_new 39) 39 0
      = \<lparr>completed = [39], failed = [], inProgress = [], retryCount = []\<rparr>"
    by (simp add: markCompleted_def markInProgress_def OffsetTracker_new_def Set_add_def
        Set_delete_def)
  moreover have "settleRequest (parseStakeResponse jp pw) 39 RequestTimeout
        (markInProgress OffsetTracker_new 39, 0)
      = (\<lparr>rr_offset = 39, rr_games = [], rr_success = False\<rparr>,
         snd (markFailed (markInProgress OffsetTracker_new 39) 39), 0)"
    by (rule settleRequest_rejected) (simp add: executeSingleRequest_def)
  moreover have "snd (markFailed (markInProgress OffsetTracker_new 39) 39)
      = \<lparr>completed = [], failed = [], inProgress = [], retryCount = [(39, 1)]\<rparr>"
    by (simp add: markFailed_def markInProgress_def OffsetTracker_new_def Set_add_def
        Set_delete_def retries_of_def Map_get_def Map_set_def MAX_RETRIES_def Let_def)
  ultimately show ?thesis
    using p by (simp add: parseFailure_def)
qed

lemma iteration_at_ceiling:
  "3 \<le> length (failed (tracker s)) \<Longrightarrow> iteration parse world provider s = Break s"
  by (simp add: iteration_def)

lemma driverLoop_Break:
  "iteration parse world provider s = Break s' \<Longrightarrow> driverLoop parse world provider s = Some s'"
  by (subst driverLoop.simps) simp

lemma driverLoop_Continue:
  "iteration parse world provider s = Continue s' \<Longrightarrow>
   driverLoop parse world provider s = driverLoop parse world provider s'"
  by (subst driverLoop.simps) simp

text \<open>
  C5. In a state with three or more failed offsets the loop of the driver is left at
  once: the round ends at the check of the ceiling, before \<^verbatim>\<open>getNextOffsets\<close> is
  asked, so the loop returns the state it was given, with the same request count.
\<close>

theorem failure_ceiling_ends_run:
  "3 \<le> length (failed (tracker s)) \<Longrightarrow>
   iteration parse world provider s = Break s
   \<and> driverLoop parse world provider s = Some s"
  by (simp add: iteration_at_ceiling driverLoop_Break)

theorem failure_ceiling_ends_run_witness:
  "3 \<le> length (failed (tracker threeFailedState))
   \<and> fst (getNextOffsets (tracker threeFailedState) 0 200 MAX_CONCURRENT_REQUESTS)
       = [117, 156, 195]
   \<and> iteration (\<lambda>d. parseFailure) (\<lambda>n off lim. RequestTimeout) \<lparr>totalGames = 200\<rparr>
        threeFailedState = Break threeFailedState
   \<and> driverLoop (\<lambda>d. parseFailure) (\<lambda>n off lim. RequestTimeout) \<lparr>totalGames = 200\<rparr>
        threeFailedState = Some threeFailedState"
proof -
  have three: "3 \<le> length (failed (tracker threeFailedState))"
    by (simp add: threeFailedState_def)
  have "fst (getNextOffsets (tracker threeFailedState) 0 200 MAX_CONCURRENT_REQUESTS)
      = [117, 156, 195]"
    by (simp add: threeFailedState_def getNextOffsets_eq getNextSequentialOffset_def
        canFetch_def isCompleted_def isFailed_def isInProgress_def GAMES_PER_REQUEST_def
        MAX_CONCURRENT_REQUESTS_def sequentialLoop.simps firstUncompleted.simps)
  with three failure_ceiling_ends_run
         [OF three, of "\<lambda>d. parseFailure" "\<lambda>n off lim. RequestTimeout" "\<lparr>totalGames = 200\<rparr>"]
  show ?thesis
    by blast
qed

lemma driverLoop_ends_after_ceiling_round:
  assumes "iteration parse world provider s = Continue s'"
    and "3 \<le> length (failed (tracker s'))"
  shows "driverLoop parse world provider s = Some s'"
  using assms by (simp add: driverLoop_Continue driverLoop_Break iteration_at_ceiling)

lemma run_ends_at_ceiling:
  assumes "int (countGames (existingGamesByOffset disk0)) < totalGames provider"
    and "3 \<le> length (failed (initialTracker disk0))"
  shows "\<exists>d. completeProviderParallel parse world provider disk0
            = Some (\<lparr>result_totalGames = length (allGamesOf (existingGamesByOffset disk0)),
                      requestsMade = 0,
                      isComplete = (totalGames provider
                                     \<le> int (length (allGamesOf (existingGamesByOffset disk0))))\<rparr>, d)"
proof -
  let ?s = "\<lparr>tracker = initialTracker disk0, gamesByOffset = existingGamesByOffset disk0,
             totalExistingGames = countGames (existingGamesByOffset disk0),
             emptyResponseCount = 0, requestCount = 0, disk = disk0\<rparr>"
  have "driverLoop parse world provider ?s = Some ?s"
    using assms(2) by (intro driverLoop_Break iteration_at_ceiling) simp
  with assms(1) show ?thesis
    by (simp add: completeProviderParallel_def Let_def)
qed

text \<open>
  The scenario of the ceiling, run on the model: a provider of 200 games, nothing on
  disk, and every request times out. After 20 rounds of the three offsets 0, 39 and
  78 all three have failed for good, and the run ends after 60 requests although the
  offset 117 was never asked for.
\<close>

lemmas round_defs =
  iteration_def MAX_EMPTY_ATTEMPTS_def MAX_CONCURRENT_REQUESTS_def
  getNextOffsets_eq getNextSequentialOffset_def firstUncompleted.simps sequentialLoop.simps
  canFetch_def isCompleted_def isFailed_def isInProgress_def GAMES_PER_REQUEST_def
  markInProgress_def Set_add_def settleRequest_def executeSingleRequest_def markFailed_def
  Let_def Set_delete_def retries_of_def Map_get_def Map_set_def MAX_RETRIES_def
  requestLimit_def

lemma timeout_first_round:
  "iteration parse (\<lambda>r off lim. RequestTimeout) \<lparr>totalGames = 200\<rparr>
     \<lparr>tracker = OffsetTracker_new, gamesByOffset = [], totalExistingGames = 0,
      emptyResponseCount = 0, requestCount = 0,
      disk = \<lparr>gamesFile = None, checkpointFile = None\<rparr>\<rparr>
   = Continue (timeoutRoundState 1)"
  by (simp add: round_defs timeoutRoundState_def OffsetTracker_new_def)

lemma timeout_round:
  "n + 1 < 20 \<Longrightarrow>
   iteration parse (\<lambda>r off lim. RequestTimeout) \<lparr>totalGames = 200\<rparr> (timeoutRoundState n)
     = Continue (timeoutRoundState (n + 1))"
  by (simp add: round_defs timeoutRoundState_def)

lemma timeout_last_round:
  "iteration parse (\<lambda>r off lim. RequestTimeout) \<lparr>totalGames = 200\<rparr> (timeoutRoundState 19)
     = Continue threeFailedState"
  by (simp add: round_defs timeoutRoundState_def threeFailedState_def)

lemma timeout_rounds:
  "n \<le> 19 \<Longrightarrow>
   driverLoop parse (\<lambda>r off lim. RequestTimeout) \<lparr>totalGames = 200\<rparr> (timeoutRoundState n)
     = Some threeFailedState"
proof (induction "19 - n" arbitrary: n)
  case 0
  then have "n = 19" by simp
  moreover have "3 \<le> length (failed (tracker threeFailedState))"
    by (simp add: threeFailedState_def)
  ultimately show ?case
    using timeout_last_round [of parse]
    by (simp add: driverLoop_ends_after_ceiling_round)
next
  case (Suc k)
  then have "n + 1 < 20" and "k = 19 - (n + 1)" and "n + 1 \<le> 19"
    by simp_all
  then show ?case
    using Suc.hyps(1) [of "n + 1"] timeout_round [of n parse]
    by (simp add: driverLoop_Continue)
qed

lemma all_timeouts_run:
  "completeProviderParallel parse (\<lambda>r off lim. RequestTimeout) \<lparr>totalGames = 200\<rparr>
     \<lparr>gamesFile = None, checkpointFile = None\<rparr>
   = Some (\<lparr>result_totalGames = 0, requestsMade = 60, isComplete = False\<rparr>,
           saveProviderData \<lparr>totalGames = 200\<rparr> [] (tracker threeFailedState))"
proof -
  have "existingGamesByOffset \<lparr>gamesFile = None, checkpointFile = None\<rparr> = []"
    by (simp add: existingGamesByOffset_def loadGamesByOffset.simps)
  moreover have "initialTracker \<lparr>gamesFile = None, checkpointFile = None\<rparr> = OffsetTracker_new"
    by (simp add: initialTracker_def calculation markExisting_def restoreCheckpoint_def)
  moreover have "driverLoop parse (\<lambda>r off lim. RequestTimeout) \<lparr>totalGames = 200\<rparr>
     \<lparr>tracker = OffsetTracker_new, gamesByOffset = [], totalExistingGames = 0,
      emptyResponseCount = 0, requestCount = 0,
      disk = \<lparr>gamesFile = None, checkpointFile = None\<rparr>\<rparr> = Some threeFailedState"
    using timeout_first_round [of parse] timeout_rounds [of 1 parse]
    by (simp add: driverLoop_Continue)
  ultimately show ?thesis
    by (simp add: completeProviderParallel_def countGames_def allGamesOf_def
        threeFailedState_def)
qed

section \<open>Properties of the merge\<close>

lemma Map_get_Map_set:
  "Map_get (Map_set k v m) k' = (if k' = k then Some v else Map_get m k')"
  by (simp add: Map_get_def Map_set_def update_conv')

lemma distinct_Map_set:
  "distinct (map fst m) \<Longrightarrow> distinct (map fst (Map_set k v m))"
  by (simp add: Map_set_def distinct_update)

lemma entries_of_key:
  "distinct (map fst m) \<Longrightarrow> Map_get m k = Some v \<Longrightarrow> filter (\<lambda>entry. fst entry = k) m = [(k, v)]"
proof (induction m)
  case Nil
  then show ?case by (simp add: Map_get_def)
next
  case (Cons e m)
  show ?case
  proof (cases "fst e = k")
    case True
    then have "k \<notin> fst ` set m"
      using Cons.prems(1) by auto
    then have "filter (\<lambda>entry. fst entry = k) m = []"
      by (auto simp: filter_empty_conv)
    moreover have "e = (k, v)"
      using True Cons.prems(2) by (cases e) (simp add: Map_get_def)
    ultimately show ?thesis
      by simp
  next
    case False
    with Cons show ?thesis
      by (cases e) (simp add: Map_get_def)
  qed
qed

lemma mergeResults_single:
  "mergeResults [(off, Fulfilled r)] (gbo, n, e) =
     (if rr_success r \<and> rr_games r \<noteq> []
      then (Map_set off (rr_games r) gbo, n + length (rr_games r), 0)
      else (gbo, n, e))"
  by simp

lemma mergeResults_single_keys:
  "distinct (map fst gbo) \<Longrightarrow>
   distinct (map fst (fst (mergeResults [(off, Fulfilled r)] (gbo, n, e))))"
  by (simp add: distinct_Map_set)

text \<open>
  C6, as amended. After the merge of a result for an offset and then of a second,
  successful result with at least one game for the same offset, the map holds one
  entry for the offset, with exactly the games of the second result, and the entries
  of the other offsets are as they were.
\<close>

theorem merge_overwrites_offset:
  assumes "distinct (map fst gbo0)" and "rr_success r2" and "rr_games r2 \<noteq> []"
  shows "filter (\<lambda>entry. fst entry = off)
           (fst (mergeResults [(off, Fulfilled r2)]
                  (mergeResults [(off, Fulfilled r1)] (gbo0, n0, e0))))
         = [(off, rr_games r2)]
         \<and> (\<forall>k. k \<noteq> off \<longrightarrow>
              Map_get (fst (mergeResults [(off, Fulfilled r2)]
                             (mergeResults [(off, Fulfilled r1)] (gbo0, n0, e0)))) k
              = Map_get gbo0 k)"
proof -
  obtain gbo1 n1 e1 where m1: "mergeResults [(off, Fulfilled r1)] (gbo0, n0, e0) = (gbo1, n1, e1)"
    by (cases "mergeResults [(off, Fulfilled r1)] (gbo0, n0, e0)") auto
  have d1: "distinct (map fst gbo1)"
    using mergeResults_single_keys [OF assms(1), of off r1 n0 e0] m1 by simp
  have other1: "Map_get gbo1 k = Map_get gbo0 k" if "k \<noteq> off" for k
    using m1 that by (auto simp: Map_get_Map_set split: if_splits)
  have m2: "fst (mergeResults [(off, Fulfilled r2)] (gbo1, n1, e1)) = Map_set off (rr_games r2) gbo1"
    using assms(2,3) by simp
  have "filter (\<lambda>entry. fst entry = off) (Map_set off (rr_games r2) gbo1) = [(off, rr_games r2)]"
    by (rule entries_of_key) (simp_all add: distinct_Map_set d1 Map_get_Map_set)
  moreover have "Map_get (Map_set off (rr_games r2) gbo1) k = Map_get gbo0 k" if "k \<noteq> off" for k
    using that other1 by (simp add: Map_get_Map_set)
  ultimately show ?thesis
    unfolding m1 m2 by blast
qed

theorem merge_overwrites_offset_witness:
  "distinct (map fst ([] :: (int \<times> Game list) list))
   \<and> rr_success \<lparr>rr_offset = 39, rr_games = [exampleGame], rr_success = True\<rparr>
   \<and> rr_games \<lparr>rr_offset = 39, rr_games = [exampleGame], rr_success = True\<rparr> \<noteq> []
   \<and> filter (\<lambda>entry. fst entry = 39)
        (fst (mergeResults
                [(39, Fulfilled \<lparr>rr_offset = 39, rr_games = [exampleGame], rr_success = True\<rparr>)]
                (mergeResults
                   [(39, Fulfilled \<lparr>rr_offset = 39,
                                     rr_games = [exampleGame, exampleGame], rr_success = True\<rparr>)]
                   ([], 0, 0))))
      = [(39, [exampleGame])]"
proof -
  let ?r2 = "\<lparr>rr_offset = 39, rr_games = [exampleGame], rr_success = True\<rparr>"
  have d: "distinct (map fst ([] :: (int \<times> Game list) list))" by simp
  have s: "rr_success ?r2" by simp
  have g: "rr_games ?r2 \<noteq> []" by simp
  from merge_overwrites_offset
         [OF d s g, of 39
            "\<lparr>rr_offset = 39, rr_games = [exampleGame, exampleGame], rr_success = True\<rparr>" 0 0]
    d s g
  show ?thesis
    by simp
qed

text \<open>
  C6 as stated fails when the second record set is empty: the merge only stores a
  result with at least one game, so the games of the first result stay.
\<close>

theorem merge_keeps_first_when_second_empty:
  "Map_get
     (fst (mergeResults [(39, Fulfilled \<lparr>rr_offset = 39, rr_games = [], rr_success = True\<rparr>)]
             (mergeResults
                [(39, Fulfilled \<lparr>rr_offset = 39, rr_games = [exampleGame], rr_success = True\<rparr>)]
                ([], 0, 0)))) 39
   = Some [exampleGame]
   \<and> Some [exampleGame]
       \<noteq> Some (rr_games \<lparr>rr_offset = 39, rr_games = [], rr_success = True\<rparr>)"
  by (simp add: Map_get_def Map_set_def)

section \<open>The three sets of the tracker\<close>

lemma restore_failed_fold:
  "fold (\<lambda>off tr. tr\<lparr>failed := Set_add off (failed tr)\<rparr>) fs t
     = t\<lparr>failed := fold Set_add fs (failed t)\<rparr>"
  by (induction fs arbitrary: t) simp_all

lemma set_fold_Set_add: "set (fold Set_add fs acc) = set acc \<union> set fs"
  by (induction fs arbitrary: acc) (auto simp: set_Set_add)

lemma restore_counts_fold:
  "fold (\<lambda>(key, count) tr.
           (case parseInt key of
              None \<Rightarrow> tr
            | Some off \<Rightarrow> tr\<lparr>retryCount := Map_set off count (retryCount tr)\<rparr>)) es t
     = t\<lparr>retryCount :=
           fold (\<lambda>(key, count) rc.
                   (case parseInt key of None \<Rightarrow> rc | Some off \<Rightarrow> Map_set off count rc))
                es (retryCount t)\<rparr>"
proof (induction es arbitrary: t)
  case Nil
  show ?case by simp
next
  case (Cons e es)
  show ?case
    by (cases e) (simp add: Cons.IH split: option.split)
qed

lemma restoreCheckpoint_sets:
  "completed (restoreCheckpoint cp t) = completed t"
  "inProgress (restoreCheckpoint cp t) = inProgress t"
  "set (failed (restoreCheckpoint cp t))
     = set (failed t) \<union> (case cp of None \<Rightarrow> {} | Some c \<Rightarrow>
         (case failed_offsets c of None \<Rightarrow> {} | Some fs \<Rightarrow> set fs))"
  by (simp_all add: restoreCheckpoint_def restore_failed_fold restore_counts_fold
      set_fold_Set_add split: option.split)

lemma markFailed_sets:
  "completed (snd (markFailed t off)) = completed t"
  "set (inProgress (snd (markFailed t off))) = set (inProgress t) - {off}"
  "set (failed (snd (markFailed t off))) \<subseteq> insert off (set (failed t))"
  by (auto simp: markFailed_def Let_def set_Set_add set_Set_delete)

lemma markFailed_failed_member:
  "x \<in> set (failed (snd (markFailed t off))) \<Longrightarrow> x = off \<or> x \<in> set (failed t)"
  using markFailed_sets(3) [of t off] by auto

lemma keepsApart_preserves:
  assumes "pairwiseDisjoint t" and "keepsApart t opn"
  shows "pairwiseDisjoint (applyOp t opn)"
proof (cases opn)
  case (MarkInProgress off)
  with assms show ?thesis
    by (auto simp: pairwiseDisjoint_def markInProgress_def set_Set_add isCompleted_def
        isFailed_def)
next
  case (MarkCompleted off n)
  with assms show ?thesis
    by (auto simp: pairwiseDisjoint_def markCompleted_def set_Set_add set_Set_delete
        isFailed_def)
next
  case (MarkFailed off)
  with assms show ?thesis
    by (auto simp: pairwiseDisjoint_def markFailed_sets(1,2) isCompleted_def
        dest: markFailed_failed_member)
next
  case (GetNextOffsets cg tg m)
  with assms show ?thesis
    by (simp add: getNextOffsets_eq)
next
  case (RestoreCheckpoint c)
  with assms show ?thesis
    by (auto simp: pairwiseDisjoint_def restoreCheckpoint_sets isCompleted_def
        isInProgress_def list_all_iff split: option.splits)
qed

lemma guardedRun_preserves:
  "pairwiseDisjoint t \<Longrightarrow> guardedRun t ops \<Longrightarrow> pairwiseDisjoint (applyOps t ops)"
proof (induction ops arbitrary: t)
  case Nil
  then show ?case by (simp add: applyOps_def)
next
  case (Cons opn ops)
  then have "pairwiseDisjoint (applyOp t opn)" and "guardedRun (applyOp t opn) ops"
    by (simp_all add: keepsApart_preserves)
  then have "pairwiseDisjoint (applyOps (applyOp t opn) ops)"
    by (rule Cons.IH)
  then show ?case
    by (simp add: applyOps_def)
qed

lemma guardedRun_take: "guardedRun t ops \<Longrightarrow> guardedRun t (take n ops)"
proof (induction ops arbitrary: t n)
  case Nil
  then show ?case by simp
next
  case (Cons opn ops)
  then show ?case
    by (cases n) simp_all
qed

text \<open>
  C1, as amended. Starting from a new tracker, after every operation of a sequence
  of \<^verbatim>\<open>markInProgress\<close>, \<^verbatim>\<open>markCompleted\<close>, \<^verbatim>\<open>markFailed\<close>,
  \<^verbatim>\<open>getNextOffsets\<close> and checkpoint restores whose calls respect the state of the
  offset (in progress only what is neither completed nor failed, completed only what
  is not failed, failed only what is not completed, restored as failed only what is
  neither completed nor in progress), the sets \<^verbatim>\<open>completed\<close>, \<^verbatim>\<open>failed\<close> and
  \<^verbatim>\<open>inProgress\<close> are pairwise disjoint.
\<close>

theorem guarded_run_keeps_sets_disjoint:
  "guardedRun OffsetTracker_new ops \<Longrightarrow>
   pairwiseDisjoint (applyOps OffsetTracker_new (take n ops))"
proof -
  assume "guardedRun OffsetTracker_new ops"
  then have "guardedRun OffsetTracker_new (take n ops)"
    by (rule guardedRun_take)
  moreover have "pairwiseDisjoint OffsetTracker_new"
    by (simp add: pairwiseDisjoint_def OffsetTracker_new_def)
  ultimately show ?thesis
    by (rule guardedRun_preserves [rotated])
qed

theorem guarded_run_keeps_sets_disjoint_witness:
  "guardedRun OffsetTracker_new
     [GetNextOffsets 0 100 3, MarkInProgress 0, MarkInProgress 39, MarkCompleted 0 39,
      MarkFailed 39]
   \<and> applyOps OffsetTracker_new
       (take 5 [GetNextOffsets 0 100 3, MarkInProgress 0, MarkInProgress 39, MarkCompleted 0 39,
                MarkFailed 39])
     = \<lparr>completed = [0], failed = [], inProgress = [], retryCount = [(39, 1)]\<rparr>
   \<and> pairwiseDisjoint (applyOps OffsetTracker_new
       (take 5 [GetNextOffsets 0 100 3, MarkInProgress 0, MarkInProgress 39, MarkCompleted 0 39,
                MarkFailed 39]))"
proof -
  let ?ops = "[GetNextOffsets 0 100 3, MarkInProgress 0, MarkInProgress 39, MarkCompleted 0 39,
               MarkFailed 39]"
  have g: "guardedRun OffsetTracker_new ?ops"
    by (simp add: getNextOffsets_eq OffsetTracker_new_def markInProgress_def markCompleted_def
        Set_add_def Set_delete_def isCompleted_def isFailed_def)
  have "applyOps OffsetTracker_new (take 5 ?ops)
      = \<lparr>completed = [0], failed = [], inProgress = [], retryCount = [(39, 1)]\<rparr>"
    by (simp add: applyOps_def getNextOffsets_eq OffsetTracker_new_def markInProgress_def
        markCompleted_def markFailed_def Let_def Set_add_def Set_delete_def retries_of_def
        Map_get_def Map_set_def MAX_RETRIES_def)
  with g guarded_run_keeps_sets_disjoint [OF g, of 5] show ?thesis
    by blast
qed

text \<open>
  C1 as stated fails: the tracker takes any call. An offset marked completed and then
  in progress is in both sets; and the start of a run with the games file of 61 games
  and the checkpoint of the example puts the offset 39 into \<^verbatim>\<open>failed\<close> from the
  checkpoint and into \<^verbatim>\<open>completed\<close> from the second slice of the games.
\<close>

theorem unguarded_calls_overlap:
  "\<not> pairwiseDisjoint (applyOps OffsetTracker_new [MarkCompleted 0 39, MarkInProgress 0])
   \<and> \<not> pairwiseDisjoint
         (applyOps OffsetTracker_new [RestoreCheckpoint exampleCheckpoint, MarkCompleted 39 22])
   \<and> \<not> pairwiseDisjoint
         (initialTracker \<lparr>gamesFile = Some (replicate 61 exampleGame),
                          checkpointFile = Some exampleCheckpoint\<rparr>)"
proof -
  have a: "applyOps OffsetTracker_new [MarkCompleted 0 39, MarkInProgress 0]
      = \<lparr>completed = [0], failed = [], inProgress = [0], retryCount = []\<rparr>"
    by (simp add: applyOps_def OffsetTracker_new_def markInProgress_def markCompleted_def
        Set_add_def Set_delete_def)
  have f: "failed (restoreCheckpoint (Some exampleCheckpoint) OffsetTracker_new) = [39]"
    by (simp add: restoreCheckpoint_def restore_failed_fold restore_counts_fold
        exampleCheckpoint_def OffsetTracker_new_def Set_add_def)
  have b: "39 \<in> set (completed (applyOps OffsetTracker_new
              [RestoreCheckpoint exampleCheckpoint, MarkCompleted 39 22]))
         \<and> 39 \<in> set (failed (applyOps OffsetTracker_new
              [RestoreCheckpoint exampleCheckpoint, MarkCompleted 39 22]))"
    by (simp add: applyOps_def markCompleted_def set_Set_add f)
  have l: "existingGamesByOffset \<lparr>gamesFile = Some (replicate 61 exampleGame),
                          checkpointFile = Some exampleCheckpoint\<rparr>
      = [(0, replicate 39 exampleGame), (39, replicate 22 exampleGame)]"
    by (simp add: existingGamesByOffset_def loadGamesByOffset.simps GAMES_PER_REQUEST_def
        Map_set_def)
  have c: "39 \<in> set (completed (initialTracker \<lparr>gamesFile = Some (replicate 61 exampleGame),
                          checkpointFile = Some exampleCheckpoint\<rparr>))
         \<and> 39 \<in> set (failed (initialTracker \<lparr>gamesFile = Some (replicate 61 exampleGame),
                          checkpointFile = Some exampleCheckpoint\<rparr>))"
    by (simp add: initialTracker_def l markExisting_def markCompleted_def set_Set_add f)
  from a b c show ?thesis
    by (auto simp: pairwiseDisjoint_def)
qed

section \<open>Decimal keys\<close>

lemma radixValue_snoc:
  "radixValue R (Z @ [c]) = radixValue R Z * R + (case digitValue c of None \<Rightarrow> 0 | Some d \<Rightarrow> d)"
  by (simp add: radixValue_def)

lemma digitsOf_digits: "c \<in> set (digitsOf n) \<Longrightarrow> 48 \<le> c \<and> c \<le> 57"
proof (induction n rule: digitsOf.induct)
  case (1 n)
  show ?case
  proof (cases "n < 10")
    case True
    with "1.prems" show ?thesis
      by (simp add: digitsOf.simps)
  next
    case False
    have "digitsOf n = digitsOf (n div 10) @ [48 + n mod 10]"
      using False by (subst digitsOf.simps) simp
    with "1.prems" have "c \<in> set (digitsOf (n div 10)) \<or> c = 48 + n mod 10"
      by auto
    then show ?thesis
    proof
      assume "c \<in> set (digitsOf (n div 10))"
      with False "1.IH" show ?thesis by simp
    next
      assume "c = 48 + n mod 10"
      moreover have "n mod 10 < 10" by simp
      ultimately show ?thesis by linarith
    qed
  qed
qed

lemma digitsOf_nonempty: "digitsOf n \<noteq> []"
  by (subst digitsOf.simps) simp

lemma digitValue_digit: "48 \<le> c \<Longrightarrow> c \<le> 57 \<Longrightarrow> digitValue c = Some (c - 48)"
  by (simp add: digitValue_def)

lemma radixValue_digitsOf: "radixValue 10 (digitsOf n) = n"
proof (induction n rule: digitsOf.induct)
  case (1 n)
  show ?case
  proof (cases "n < 10")
    case True
    then have "digitsOf n = [48 + n]"
      by (subst digitsOf.simps) simp
    with True show ?thesis
      by (simp add: radixValue_def digitValue_def)
  next
    case False
    have d: "digitsOf n = digitsOf (n div 10) @ [48 + n mod 10]"
      using False by (subst digitsOf.simps) simp
    have "n mod 10 < 10" by simp
    then have "digitValue (48 + n mod 10) = Some (n mod 10)"
      by (simp add: digitValue_def)
    with False "1.IH" show ?thesis
      by (simp add: d radixValue_snoc)
  qed
qed

lemma takeWhile_digitsOf: "takeWhile (isRadixDigit 10) (digitsOf n) = digitsOf n"
proof -
  have "isRadixDigit 10 c" if "c \<in> set (digitsOf n)" for c
    using digitsOf_digits [OF that] by (auto simp: isRadixDigit_def digitValue_def)
  then show ?thesis
    by (simp add: takeWhile_eq_all_conv)
qed

lemma digitsOf_plain:
  "dropWhile isWhiteSpace (digitsOf n) = digitsOf n"
  "take (Suc 0) (digitsOf n) \<noteq> [43]" "take (Suc 0) (digitsOf n) \<noteq> [45]"
  "take 2 (digitsOf n) \<noteq> [48, 120]" "take 2 (digitsOf n) \<noteq> [48, 88]"
proof -
  obtain c cs where ds: "digitsOf n = c # cs"
    using digitsOf_nonempty [of n] by (cases "digitsOf n") auto
  have c: "48 \<le> c \<and> c \<le> 57"
    by (rule digitsOf_digits [of c n]) (simp add: ds)
  then show "dropWhile isWhiteSpace (digitsOf n) = digitsOf n"
    by (simp add: ds isWhiteSpace_def)
  from c show "take (Suc 0) (digitsOf n) \<noteq> [43]" and "take (Suc 0) (digitsOf n) \<noteq> [45]"
    by (simp_all add: ds)
  have "c' \<noteq> 120 \<and> c' \<noteq> 88" if "cs = c' # cs'" for c' cs'
    using digitsOf_digits [of c' n] that by (auto simp: ds)
  then show "take 2 (digitsOf n) \<noteq> [48, 120]" and "take 2 (digitsOf n) \<noteq> [48, 88]"
    by (cases cs; simp add: ds)+
qed

lemma parseInt_digitsOf: "parseInt (digitsOf n) = Some (int n)"
  by (simp add: parseInt_def Let_def digitsOf_plain takeWhile_digitsOf digitsOf_nonempty
      radixValue_digitsOf)

lemma parseInt_minus_digitsOf: "parseInt (45 # digitsOf n) = Some (- int n)"
  by (simp add: parseInt_def Let_def isWhiteSpace_def digitsOf_plain takeWhile_digitsOf
      digitsOf_nonempty radixValue_digitsOf)

lemma parseInt_Number_toString: "parseInt (Number_toString n) = Some n"
  by (simp add: Number_toString_def parseInt_digitsOf parseInt_minus_digitsOf)

lemma Number_toString_inject:
  assumes "Number_toString a = Number_toString b"
  shows "a = b"
proof -
  have "Some a = parseInt (Number_toString a)"
    by (simp add: parseInt_Number_toString)
  also have "\<dots> = parseInt (Number_toString b)"
    by (simp only: assms)
  also have "\<dots> = Some b"
    by (simp add: parseInt_Number_toString)
  finally show ?thesis
    by simp
qed

section \<open>Saving and restoring a checkpoint\<close>

lemma update_fresh: "k \<notin> fst ` set al \<Longrightarrow> AList.update k v al = al @ [(k, v)]"
  by (induction al) auto

lemma Object_fromEntries_fold:
  "distinct (map fst m) \<Longrightarrow> \<forall>k \<in> fst ` set m. Number_toString k \<notin> fst ` set acc \<Longrightarrow>
   fold (\<lambda>(k, v) obj. AList.update (Number_toString k) v obj) m acc
     = acc @ map (\<lambda>(k, v). (Number_toString k, v)) m"
proof (induction m arbitrary: acc)
  case Nil
  show ?case by simp
next
  case (Cons e m)
  obtain k v where e: "e = (k, v)" by (cases e)
  have fresh: "Number_toString k \<notin> fst ` set acc"
    using Cons.prems(2) by (simp add: e)
  have "\<forall>k' \<in> fst ` set m. Number_toString k' \<notin> fst ` set (acc @ [(Number_toString k, v)])"
  proof
    fix k' assume k': "k' \<in> fst ` set m"
    then have "k' \<noteq> k"
      using Cons.prems(1) by (auto simp: e)
    then have "Number_toString k' \<noteq> Number_toString k"
      by (auto dest: Number_toString_inject)
    moreover have "Number_toString k' \<notin> fst ` set acc"
      using Cons.prems(2) k' by auto
    ultimately show "Number_toString k' \<notin> fst ` set (acc @ [(Number_toString k, v)])"
      by auto
  qed
  moreover have "distinct (map fst m)"
    using Cons.prems(1) by simp
  ultimately have "fold (\<lambda>(k, v) obj. AList.update (Number_toString k) v obj) m
        (acc @ [(Number_toString k, v)])
      = (acc @ [(Number_toString k, v)]) @ map (\<lambda>(k, v). (Number_toString k, v)) m"
    by (rule Cons.IH [rotated])
  then show ?case
    by (simp add: e update_fresh [OF fresh])
qed

lemma Object_fromEntries_map:
  "distinct (map fst m) \<Longrightarrow> Object_fromEntries m = map (\<lambda>(k, v). (Number_toString k, v)) m"
  using Object_fromEntries_fold [of m "[]"] by (simp add: Object_fromEntries_def)

lemma Object_fromEntries_keys:
  assumes "distinct (map fst m)"
  shows "distinct (map fst (Object_fromEntries m))"
proof -
  have "map fst (map (\<lambda>(k, v). (Number_toString k, v)) m) = map Number_toString (map fst m)"
    by (induction m) auto
  moreover have "inj_on Number_toString (set (map fst m))"
    by (rule inj_onI) (rule Number_toString_inject)
  ultimately show ?thesis
    using assms by (simp add: Object_fromEntries_map distinct_map del: map_map)
qed

lemma Object_fromEntries_lookup:
  assumes "distinct (map fst m)"
  shows "map_of (Object_fromEntries m) (Number_toString k) = map_of m k"
proof -
  have "map_of (map (\<lambda>(k, v). (Number_toString k, v)) m) (Number_toString k) = map_of m k"
    by (induction m) (auto dest: Number_toString_inject)
  then show ?thesis
    by (simp add: Object_fromEntries_map [OF assms])
qed

lemma Object_fromEntries_range:
  assumes "distinct (map fst m)" and "(key, c) \<in> set (Object_fromEntries m)"
  shows "\<exists>k. key = Number_toString k"
  using assms by (auto simp: Object_fromEntries_map)

lemma set_Object_entries: "set (Object_entries obj) = set obj"
  by (auto simp: Object_entries_def)

lemma distinct_keys_Object_entries:
  assumes "distinct (map fst obj)"
  shows "distinct (map fst (Object_entries obj))"
proof -
  have d: "distinct obj" and i: "inj_on fst (set obj)"
    using assms by (simp_all add: distinct_map)
  have "distinct (Object_entries obj)"
    using d by (auto simp: Object_entries_def)
  moreover have "inj_on fst (set (Object_entries obj))"
    using i by (simp add: set_Object_entries)
  ultimately show ?thesis
    by (simp add: distinct_map)
qed

lemma map_of_Object_entries:
  assumes "distinct (map fst obj)"
  shows "map_of (Object_entries obj) = map_of obj"
  using assms distinct_keys_Object_entries [OF assms] set_Object_entries [of obj]
  by (simp add: map_of_inject_set)

lemma restored_counts_lookup:
  assumes "distinct (map fst es)" and "\<forall>(key, c) \<in> set es. \<exists>k. key = Number_toString k"
  shows "map_of (fold (\<lambda>(key, count) rc.
                    (case parseInt key of None \<Rightarrow> rc | Some off \<Rightarrow> Map_set off count rc))
                  es rc) off
         = (case map_of es (Number_toString off) of None \<Rightarrow> map_of rc off | Some c \<Rightarrow> Some c)"
  using assms
proof (induction es arbitrary: rc)
  case Nil
  show ?case by simp
next
  case (Cons e es)
  obtain key c where e: "e = (key, c)" by (cases e)
  obtain k where key: "key = Number_toString k"
    using Cons.prems(2) by (auto simp: e)
  have d: "distinct (map fst es)" and fresh: "key \<notin> fst ` set es"
    using Cons.prems(1) by (simp_all add: e)
  have r: "\<forall>(key, c) \<in> set es. \<exists>k. key = Number_toString k"
    using Cons.prems(2) by simp
  have none: "map_of es key = None"
    using fresh by (simp add: map_of_eq_None_iff)
  have step: "map_of (fold (\<lambda>(key, count) rc.
                    (case parseInt key of None \<Rightarrow> rc | Some off \<Rightarrow> Map_set off count rc))
                  (e # es) rc) off
      = (case map_of es (Number_toString off) of
           None \<Rightarrow> map_of (Map_set k c rc) off | Some c' \<Rightarrow> Some c')"
    using Cons.IH [OF d r, of "Map_set k c rc"]
    by (simp add: e key parseInt_Number_toString)
  show ?case
  proof (cases "off = k")
    case True
    with step none show ?thesis
      by (simp add: e key Map_set_def update_conv')
  next
    case False
    then have "Number_toString off \<noteq> key"
      by (auto simp: key dest: Number_toString_inject)
    with step False show ?thesis
      by (simp add: e Map_set_def update_conv' split: option.split)
  qed
qed

lemma markExisting_keeps:
  "failed (markExisting gbo t) = failed t" "retryCount (markExisting gbo t) = retryCount t"
proof -
  have "failed (fold (\<lambda>(off, gs) tr. markCompleted tr off (length gs)) gbo t) = failed t
      \<and> retryCount (fold (\<lambda>(off, gs) tr. markCompleted tr off (length gs)) gbo t) = retryCount t"
    by (induction gbo arbitrary: t) (auto simp: markCompleted_def)
  then show "failed (markExisting gbo t) = failed t"
    and "retryCount (markExisting gbo t) = retryCount t"
    by (simp_all add: markExisting_def)
qed

lemma fold_Set_add_distinct:
  "distinct (acc @ fs) \<Longrightarrow> fold Set_add fs acc = acc @ fs"
  by (induction fs arbitrary: acc) (auto simp: Set_add_def)

lemma restored_failed:
  assumes "distinct (failed t)"
  shows "failed (restoreCheckpoint (checkpointFile (saveProviderData provider allGames t))
           OffsetTracker_new) = sort (failed t)"
proof -
  have "fold Set_add (sort (failed t)) [] = sort (failed t)"
    using assms fold_Set_add_distinct [of "[]" "sort (failed t)"] by simp
  then show ?thesis
    by (simp add: restoreCheckpoint_def saveProviderData_def getStatus_def Let_def
        restore_failed_fold restore_counts_fold OffsetTracker_new_def)
qed

lemma restored_retryCount:
  assumes "distinct (map fst (retryCount t))"
  shows "Map_get (retryCount (restoreCheckpoint
             (checkpointFile (saveProviderData provider allGames t)) OffsetTracker_new)) off
         = Map_get (retryCount t) off"
proof -
  let ?obj = "Object_fromEntries (retryCount t)"
  have keys: "distinct (map fst ?obj)"
    using assms by (rule Object_fromEntries_keys)
  have rng: "\<forall>(key, c) \<in> set (Object_entries ?obj). \<exists>k. key = Number_toString k"
    using Object_fromEntries_range [OF assms] by (auto simp: set_Object_entries)
  have "retryCount (restoreCheckpoint (checkpointFile (saveProviderData provider allGames t))
            OffsetTracker_new)
      = fold (\<lambda>(key, count) rc.
                (case parseInt key of None \<Rightarrow> rc | Some off \<Rightarrow> Map_set off count rc))
             (Object_entries ?obj) []"
    by (simp add: restoreCheckpoint_def saveProviderData_def getStatus_def Let_def
        restore_failed_fold restore_counts_fold OffsetTracker_new_def)
  then have "Map_get (retryCount (restoreCheckpoint
                (checkpointFile (saveProviderData provider allGames t)) OffsetTracker_new)) off
      = (case map_of (Object_entries ?obj) (Number_toString off) of
           None \<Rightarrow> None | Some c \<Rightarrow> Some c)"
    using restored_counts_lookup [OF distinct_keys_Object_entries [OF keys] rng, of "[]" off]
    by (simp add: Map_get_def split: option.split)
  also have "\<dots> = map_of ?obj (Number_toString off)"
    by (simp add: map_of_Object_entries [OF keys] split: option.split)
  also have "\<dots> = Map_get (retryCount t) off"
    by (simp add: Object_fromEntries_lookup [OF assms] Map_get_def)
  finally show ?thesis .
qed

text \<open>
  The lists that stand for the sets and the map of a tracker never hold an element
  or a key twice, whatever is called on the tracker.
\<close>

lemma distinct_fold_Set_add: "distinct acc \<Longrightarrow> distinct (fold Set_add fs acc)"
  by (induction fs arbitrary: acc) (simp_all add: distinct_Set_add)

lemma distinct_restored_counts:
  "distinct (map fst rc) \<Longrightarrow>
   distinct (map fst (fold (\<lambda>(key, count) rc.
                        (case parseInt key of None \<Rightarrow> rc | Some off \<Rightarrow> Map_set off count rc))
                      es rc))"
proof (induction es arbitrary: rc)
  case Nil
  then show ?case by simp
next
  case (Cons e es)
  then show ?case
    by (cases e) (simp add: distinct_Map_set split: option.split)
qed

lemma applyOp_no_duplicates:
  assumes "distinct (failed t) \<and> distinct (map fst (retryCount t))"
  shows "distinct (failed (applyOp t opn)) \<and> distinct (map fst (retryCount (applyOp t opn)))"
proof (cases opn)
  case (MarkInProgress off)
  with assms show ?thesis by (simp add: markInProgress_def)
next
  case (MarkCompleted off n)
  with assms show ?thesis by (simp add: markCompleted_def)
next
  case (MarkFailed off)
  with assms show ?thesis
    by (simp add: markFailed_def Let_def distinct_Set_add distinct_Map_set)
next
  case (GetNextOffsets cg tg m)
  with assms show ?thesis by (simp add: getNextOffsets_eq)
next
  case (RestoreCheckpoint c)
  with assms show ?thesis
    by (simp add: restoreCheckpoint_def restore_failed_fold restore_counts_fold
        distinct_fold_Set_add distinct_restored_counts split: option.split)
qed

lemma applyOps_no_duplicates:
  "distinct (failed (applyOps OffsetTracker_new ops))
   \<and> distinct (map fst (retryCount (applyOps OffsetTracker_new ops)))"
proof -
  have "distinct (failed (foldl applyOp t ops)) \<and> distinct (map fst (retryCount (foldl applyOp t ops)))"
    if "distinct (failed t) \<and> distinct (map fst (retryCount t))" for t
    using that by (induction ops arbitrary: t) (simp_all add: applyOp_no_duplicates)
  then show ?thesis
    by (simp add: applyOps_def OffsetTracker_new_def)
qed

lemma dom_Map_set: "fst ` set (Map_set k v m) = insert k (fst ` set m)"
  by (simp add: Map_set_def dom_update)

lemma loadGamesByOffset_keys:
  "fst ` set (loadGamesByOffset gs i acc)
     = fst ` set acc \<union> {int j | j. j < length gs \<and> (\<exists>n. j = i + 39 * n)}"
proof (induction gs i acc rule: loadGamesByOffset.induct)
  case (1 gs i acc)
  show ?case
  proof (cases "i < length gs")
    case True
    have split: "{int j | j. j < length gs \<and> (\<exists>n. j = i + 39 * n)}
        = insert (int i) {int j | j. j < length gs \<and> (\<exists>n. j = i + 39 + 39 * n)}"
    proof
      show "{int j | j. j < length gs \<and> (\<exists>n. j = i + 39 * n)}
          \<subseteq> insert (int i) {int j | j. j < length gs \<and> (\<exists>n. j = i + 39 + 39 * n)}"
      proof
        fix x assume "x \<in> {int j | j. j < length gs \<and> (\<exists>n. j = i + 39 * n)}"
        then obtain j n where x: "x = int j" "j < length gs" "j = i + 39 * n"
          by auto
        show "x \<in> insert (int i) {int j | j. j < length gs \<and> (\<exists>n. j = i + 39 + 39 * n)}"
        proof (cases n)
          case 0
          with x show ?thesis by simp
        next
          case (Suc n')
          with x have "j = i + 39 + 39 * n'" by simp
          then have "\<exists>n. j = i + 39 + 39 * n" by blast
          with x(1,2) show ?thesis by blast
        qed
      qed
    next
      show "insert (int i) {int j | j. j < length gs \<and> (\<exists>n. j = i + 39 + 39 * n)}
          \<subseteq> {int j | j. j < length gs \<and> (\<exists>n. j = i + 39 * n)}"
      proof
        fix x assume "x \<in> insert (int i) {int j | j. j < length gs \<and> (\<exists>n. j = i + 39 + 39 * n)}"
        then consider "x = int i" | j n where "x = int j" "j < length gs" "j = i + 39 + 39 * n"
          by auto
        then show "x \<in> {int j | j. j < length gs \<and> (\<exists>n. j = i + 39 * n)}"
        proof cases
          case 1
          have "i = i + 39 * 0" by simp
          with 1 True show ?thesis by blast
        next
          case 2
          then have "j = i + 39 * Suc n" by simp
          with 2 show ?thesis by blast
        qed
      qed
    qed
    have "loadGamesByOffset gs i acc
        = loadGamesByOffset gs (i + nat GAMES_PER_REQUEST)
            (Map_set (int i) (take (nat GAMES_PER_REQUEST) (drop i gs)) acc)"
      using True by (subst loadGamesByOffset.simps) simp
    with "1.IH" [OF True] show ?thesis
      by (simp add: dom_Map_set split GAMES_PER_REQUEST_def)
  next
    case False
    then have e: "{int j | j. j < length gs \<and> (\<exists>n. j = i + 39 * n)} = {}"
      by auto
    have "loadGamesByOffset gs i acc = acc"
      using False by (subst loadGamesByOffset.simps) simp
    then show ?thesis
      by (simp only: e Un_empty_right)
  qed
qed

lemma markExisting_completed:
  "set (completed (markExisting gbo t)) = set (completed t) \<union> fst ` set gbo"
proof -
  have "set (completed (fold (\<lambda>(off, gs) tr. markCompleted tr off (length gs)) gbo t))
      = set (completed t) \<union> fst ` set gbo"
    by (induction gbo arbitrary: t) (auto simp: markCompleted_def set_Set_add)
  then show ?thesis
    by (simp add: markExisting_def)
qed

lemma restored_completed:
  "set (completed (initialTracker (saveProviderData provider allGames t)))
     = {int j | j. j < length allGames \<and> nat GAMES_PER_REQUEST dvd j}"
proof -
  have "{int j | j. j < length allGames \<and> (\<exists>n. j = 0 + 39 * n)}
      = {int j | j. j < length allGames \<and> nat GAMES_PER_REQUEST dvd j}"
    by (auto simp: GAMES_PER_REQUEST_def dvd_def)
  then show ?thesis
    using loadGamesByOffset_keys [of allGames 0 "[]"]
    by (simp add: initialTracker_def markExisting_completed restoreCheckpoint_sets
        existingGamesByOffset_def saveProviderData_def Let_def OffsetTracker_new_def)
qed

text \<open>
  C7, as amended. For a tracker whose sets and map have no duplicates, as every
  JavaScript \<^verbatim>\<open>Set\<close> and \<^verbatim>\<open>Map\<close> is, writing the checkpoint with
  \<^verbatim>\<open>saveProviderData\<close> and starting a run from it gives a tracker with the same
  failed offsets and the same retry count for every offset. Its completed offsets
  are the multiples of 39 below the number of saved games, whatever was completed
  before.
\<close>

theorem checkpoint_roundtrip_failed_and_retries:
  assumes "distinct (failed t)" and "distinct (map fst (retryCount t))"
  shows "status_failed (getStatus (initialTracker (saveProviderData provider allGames t)))
           = status_failed (getStatus t)
         \<and> failed_offsets (the (checkpointFile (saveProviderData provider allGames t)))
           = Some (status_failed (getStatus t))
         \<and> (\<forall>off. Map_get (retryCount (initialTracker (saveProviderData provider allGames t))) off
                    = Map_get (retryCount t) off)
         \<and> set (completed (initialTracker (saveProviderData provider allGames t)))
           = {int j | j. j < length allGames \<and> nat GAMES_PER_REQUEST dvd j}"
proof -
  have "failed (initialTracker (saveProviderData provider allGames t)) = sort (failed t)"
    by (simp add: initialTracker_def markExisting_keeps restored_failed [OF assms(1)])
  moreover have "Map_get (retryCount (initialTracker (saveProviderData provider allGames t))) off
      = Map_get (retryCount t) off" for off
    by (simp add: initialTracker_def markExisting_keeps restored_retryCount [OF assms(2)])
  moreover have "failed_offsets (the (checkpointFile (saveProviderData provider allGames t)))
      = Some (sort (failed t))"
    by (simp add: saveProviderData_def getStatus_def Let_def)
  ultimately show ?thesis
    by (simp add: getStatus_def sorted_sort_id restored_completed)
qed

theorem checkpoint_roundtrip_failed_and_retries_witness:
  "distinct (failed \<lparr>completed = [0], failed = [78, 39], inProgress = [],
                     retryCount = [(78, 20), (39, 20), (117, 3)]\<rparr>)
   \<and> distinct (map fst (retryCount \<lparr>completed = [0], failed = [78, 39], inProgress = [],
                     retryCount = [(78, 20), (39, 20), (117, 3)]\<rparr>))
   \<and> status_failed (getStatus (initialTracker (saveProviderData \<lparr>totalGames = 200\<rparr> []
        \<lparr>completed = [0], failed = [78, 39], inProgress = [],
          retryCount = [(78, 20), (39, 20), (117, 3)]\<rparr>)))
     = [39, 78]
   \<and> Map_get (retryCount (initialTracker (saveProviderData \<lparr>totalGames = 200\<rparr> []
        \<lparr>completed = [0], failed = [78, 39], inProgress = [],
          retryCount = [(78, 20), (39, 20), (117, 3)]\<rparr>))) 117
     = Some 3"
proof -
  let ?t = "\<lparr>completed = [0], failed = [78, 39], inProgress = [],
             retryCount = [(78, 20), (39, 20), (117, 3)]\<rparr>"
  have f: "distinct (failed ?t)" by simp
  have r: "distinct (map fst (retryCount ?t))" by simp
  have "status_failed (getStatus ?t) = [39, 78]"
    by (simp add: getStatus_def)
  moreover have "Map_get (retryCount ?t) 117 = Some 3"
    by (simp add: Map_get_def)
  ultimately show ?thesis
    using checkpoint_roundtrip_failed_and_retries [OF f r, of "\<lparr>totalGames = 200\<rparr>" "[]"] f r
    by simp
qed

text \<open>
  C7 as stated fails for the completed offsets. A run in which the page at 0 came
  back empty ends with the offset 0 completed and no game; the checkpoint it writes
  lists the offset, the tracker of the next run does not: the restore does not read
  \<^verbatim>\<open>completed_offsets\<close>, the completed offsets come from the slices of the games
  file.
\<close>

theorem completed_offsets_not_restored:
  "completed_offsets (the (checkpointFile (saveProviderData \<lparr>totalGames = 100\<rparr> []
      \<lparr>completed = [0], failed = [], inProgress = [], retryCount = []\<rparr>))) = [0]
   \<and> status_completed (getStatus (initialTracker (saveProviderData \<lparr>totalGames = 100\<rparr> []
      \<lparr>completed = [0], failed = [], inProgress = [], retryCount = []\<rparr>))) = []"
  by (simp add: saveProviderData_def getStatus_def Let_def initialTracker_def
      existingGamesByOffset_def loadGamesByOffset.simps markExisting_def restoreCheckpoint_def
      Object_fromEntries_def Object_entries_def OffsetTracker_new_def)

end
